theory Spec2Isabelle
  imports Main "HOL-Library.Sublist"
begin

section \<open>Python strings\<close>

text \<open>
  A Python \<open>str\<close> is modelled as the list of its code points, \<open>string\<close>. The model
  covers the code points below 256; every character that the generators write by
  themselves, and every character that the validator looks for, is among them.
\<close>

abbreviation TAB :: char where "TAB \<equiv> CHR 0x09"
abbreviation LF :: char where "LF \<equiv> CHR 0x0A"
abbreviation CR :: char where "CR \<equiv> CHR 0x0D"
abbreviation CRLF :: string where "CRLF \<equiv> [CR, LF]"

text \<open>
  \<open>c.isspace()\<close>, which decides what \<open>str.strip()\<close> removes: the code points
  9 to 13, 28 to 32, 133 and 160 (below 256).
\<close>

definition is_space :: "char \<Rightarrow> bool" where
  "is_space c \<longleftrightarrow> (of_char c :: nat) \<in> {9, 10, 11, 12, 13, 28, 29, 30, 31, 32, 133, 160}"

definition lstrip :: "string \<Rightarrow> string" where
  "lstrip s = dropWhile is_space s"

definition rstrip :: "string \<Rightarrow> string" where
  "rstrip s = rev (dropWhile is_space (rev s))"

text \<open>\<open>s.strip()\<close>\<close>

definition strip :: "string \<Rightarrow> string" where
  "strip s = lstrip (rstrip s)"

text \<open>\<open>s.startswith(p)\<close>, \<open>s.endswith(p)\<close> and \<open>p in s\<close>\<close>

definition startswith :: "string \<Rightarrow> string \<Rightarrow> bool" where
  "startswith s p \<longleftrightarrow> prefix p s"

definition endswith :: "string \<Rightarrow> string \<Rightarrow> bool" where
  "endswith s p \<longleftrightarrow> suffix p s"

definition str_in :: "string \<Rightarrow> string \<Rightarrow> bool" where
  "str_in p s \<longleftrightarrow> sublist p s"

text \<open>\<open>s.split(sep)\<close> for a separator of one character: one more part than separators.\<close>

fun split_on :: "char \<Rightarrow> string \<Rightarrow> string list" where
  "split_on sep [] = [[]]"
| "split_on sep (c # cs) =
     (if c = sep then [] # split_on sep cs
      else (case split_on sep cs of
              [] \<Rightarrow> [[c]]
            | p # ps \<Rightarrow> (c # p) # ps))"

text \<open>\<open>sep.join(xs)\<close>\<close>

fun join :: "string \<Rightarrow> string list \<Rightarrow> string" where
  "join sep [] = []"
| "join sep [x] = x"
| "join sep (x # y # ys) = x @ sep @ join sep (y # ys)"

text \<open>\<open>str(n)\<close> for a non-negative integer, as the f-strings of the validator print it.\<close>

definition digit_char :: "nat \<Rightarrow> char" where
  "digit_char d = char_of (48 + d)"

fun str_nat :: "nat \<Rightarrow> string" where
  "str_nat n = (if n < 10 then [digit_char n] else str_nat (n div 10) @ [digit_char (n mod 10)])"

declare str_nat.simps [simp del]

text \<open>
  Reading a text file opened with \<open>open(path, 'r', encoding='utf-8')\<close>: the default
  \<open>newline=None\<close> turns \<open>\r\n\<close> and a lone \<open>\r\<close> into \<open>\n\<close>, and \<open>readlines()\<close>
  cuts after every \<open>\n\<close>, which stays at the end of its line.
\<close>

fun universal_newlines :: "string \<Rightarrow> string" where
  "universal_newlines [] = []"
| "universal_newlines [c] = [if c = CR then LF else c]"
| "universal_newlines (c # d # cs) =
     (if c = CR \<and> d = LF then LF # universal_newlines cs
      else if c = CR then LF # universal_newlines (d # cs)
      else c # universal_newlines (d # cs))"

fun keepends :: "string \<Rightarrow> string list" where
  "keepends [] = []"
| "keepends (c # cs) =
     (if c = LF then [LF] # keepends cs
      else (case keepends cs of
              [] \<Rightarrow> [[c]]
            | l # ls \<Rightarrow> (c # l) # ls))"

definition readlines :: "string \<Rightarrow> string list" where
  "readlines text = keepends (universal_newlines text)"

section \<open>The resource tree\<close>

text \<open>
  The parser's nested dictionaries, with the keys the generators read. A dictionary is
  iterated in insertion order, so it is an association list here; the generators never
  look a key up.
\<close>

record column =
  col_control :: string
  col_label :: string
  is_custom :: bool

record view =
  view_control :: string
  view_label :: string
  columns :: "(string \<times> column) list"

record logical_unit =
  lu_name :: string
  lu_label :: string
  views :: "(string \<times> view) list"

record resource_tree =
  tree_module :: string
  tree_layer :: string
  logical_units :: "(string \<times> logical_unit) list"

section \<open>LNGGenerator\<close>

record lng_generator =
  lng_module :: string
  lng_layer :: string
  lng_main_type :: string
  lng_sub_type :: string

text \<open>\<open>LNGGenerator(module, layer, main_type="LU", sub_type="Logical Unit")\<close>\<close>

definition LNGGenerator_init :: "string \<Rightarrow> string \<Rightarrow> string \<Rightarrow> string \<Rightarrow> lng_generator" where
  "LNGGenerator_init m l mt st =
     \<lparr>lng_module = m, lng_layer = l, lng_main_type = mt, lng_sub_type = st\<rparr>"

definition LNGGenerator :: "string \<Rightarrow> string \<Rightarrow> lng_generator" where
  "LNGGenerator m l = LNGGenerator_init m l ''LU'' ''Logical Unit''"

definition separator_rule :: string where
  "separator_rule = ''-------------------------------------------------------''"

definition lng_header_lines :: "lng_generator \<Rightarrow> string list" where
  "lng_header_lines g =
     [separator_rule,
      ''File Type: IFS Foundation Language File'',
      ''Type version: 10.00'',
      separator_rule,
      ''Module: '' @ lng_module g,
      ''Layer: '' @ lng_layer g,
      ''Main Type: '' @ lng_main_type g,
      ''Sub Type: '' @ lng_sub_type g,
      ''Content: '',
      separator_rule]"

definition lng_generate_header :: "lng_generator \<Rightarrow> string" where
  "lng_generate_header g = join CRLF (lng_header_lines g) @ CRLF"

definition lng_generate_column_block :: "column \<Rightarrow> nat \<Rightarrow> string list" where
  "lng_generate_column_block col_data indent_level =
     (let indent = replicate indent_level TAB in
      [indent @ ''CS:'' @ col_control col_data @ ''^LU^Column^N^N'' @ CRLF,
       indent @ [TAB] @ ''A:Prompt^'' @ col_label col_data @ ''^'' @ CRLF,
       indent @ ''CE:'' @ CRLF])"

fun lng_columns_loop :: "(string \<times> column) list \<Rightarrow> nat \<Rightarrow> string list \<Rightarrow> string list" where
  "lng_columns_loop [] indent_level lines = lines"
| "lng_columns_loop ((col_id, col_data) # rest) indent_level lines =
     (if is_custom col_data
      then lng_columns_loop rest indent_level
             (lines @ lng_generate_column_block col_data (indent_level + 1))
      else lng_columns_loop rest indent_level lines)"

definition lng_generate_view_block :: "view \<Rightarrow> nat \<Rightarrow> string list" where
  "lng_generate_view_block view_data indent_level =
     (let indent = replicate indent_level TAB;
          lines = [indent @ ''CS:'' @ view_control view_data @ ''^LU^View^N^N'' @ CRLF];
          lines = lng_columns_loop (columns view_data) indent_level lines
      in lines @ [indent @ ''CE:'' @ CRLF])"

fun lng_views_loop :: "(string \<times> view) list \<Rightarrow> nat \<Rightarrow> string list \<Rightarrow> string list" where
  "lng_views_loop [] indent_level lines = lines"
| "lng_views_loop ((view_id, view_data) # rest) indent_level lines =
     lng_views_loop rest indent_level
       (lines @ lng_generate_view_block view_data (indent_level + 1))"

definition lng_generate_lu_block :: "logical_unit \<Rightarrow> nat \<Rightarrow> string list" where
  "lng_generate_lu_block lu_data indent_level =
     (let indent = replicate indent_level TAB;
          lines = [indent @ ''CS:'' @ lu_name lu_data @ ''^LU^Logical Unit^N^N'' @ CRLF,
                   indent @ [TAB] @ ''A:Prompt^'' @ lu_label lu_data @ ''^'' @ CRLF];
          lines = lng_views_loop (views lu_data) indent_level lines
      in lines @ [indent @ ''CE:'' @ CRLF])"

fun lng_units_loop :: "(string \<times> logical_unit) list \<Rightarrow> string list \<Rightarrow> string list" where
  "lng_units_loop [] lines = lines"
| "lng_units_loop ((lu_id, lu_data) # rest) lines =
     lng_units_loop rest (lines @ lng_generate_lu_block lu_data 0)"

text \<open>\<open>generate_content\<close> collects the lines of every logical unit and joins them.\<close>

definition lng_content_lines :: "resource_tree \<Rightarrow> string list" where
  "lng_content_lines data = lng_units_loop (logical_units data) []"

definition lng_generate_content :: "resource_tree \<Rightarrow> string" where
  "lng_generate_content data = join [] (lng_content_lines data)"

section \<open>TRSGenerator\<close>

record trs_generator =
  trs_module :: string
  trs_layer :: string
  trs_language :: string
  trs_main_type :: string
  trs_sub_type :: string
  trs_lang_code :: string
  trs_culture :: string

text \<open>The class attribute \<open>LANGUAGES\<close>: language, then its \<open>code\<close> and \<open>name\<close>.\<close>

definition LANGUAGES :: "(string \<times> string \<times> string) list" where
  "LANGUAGES = [(''sv-SE'', ''sv'', ''Swedish''), (''nb-NO'', ''no'', ''Norwegian'')]"

text \<open>
  \<open>TRSGenerator(module, layer, language, main_type="LU", sub_type="Logical Unit")\<close>:
  the language code comes from the table, or is the part of the language before its
  first hyphen.
\<close>

definition TRSGenerator_init ::
  "string \<Rightarrow> string \<Rightarrow> string \<Rightarrow> string \<Rightarrow> string \<Rightarrow> trs_generator" where
  "TRSGenerator_init m l lang mt st =
     \<lparr>trs_module = m, trs_layer = l, trs_language = lang, trs_main_type = mt,
      trs_sub_type = st,
      trs_lang_code =
        (case map_of LANGUAGES lang of
           Some (code, name) \<Rightarrow> code
         | None \<Rightarrow> (case split_on (CHR ''-'') lang of [] \<Rightarrow> [] | p # ps \<Rightarrow> p)),
      trs_culture = lang\<rparr>"

definition TRSGenerator :: "string \<Rightarrow> string \<Rightarrow> string \<Rightarrow> trs_generator" where
  "TRSGenerator m l lang = TRSGenerator_init m l lang ''LU'' ''Logical Unit''"

definition trs_header_lines :: "trs_generator \<Rightarrow> string list" where
  "trs_header_lines g =
     [separator_rule,
      ''File Type: IFS Foundation Translation File'',
      ''Type version: 10.00'',
      separator_rule,
      ''Module: '' @ trs_module g,
      ''Language: '' @ trs_lang_code g,
      ''Culture: '' @ trs_culture g,
      ''Layer: '' @ trs_layer g,
      ''Main Type: '' @ trs_main_type g,
      ''Sub Type: '' @ trs_sub_type g,
      ''Content: '',
      separator_rule]"

definition trs_generate_header :: "trs_generator \<Rightarrow> string" where
  "trs_generate_header g = join CRLF (trs_header_lines g) @ CRLF"

text \<open>\<open>translations.get(original_label, original_label)\<close>\<close>

definition translations_get :: "(string \<rightharpoonup> string) \<Rightarrow> string \<Rightarrow> string" where
  "translations_get translations original_label =
     (case translations original_label of
        None \<Rightarrow> original_label
      | Some translated_label \<Rightarrow> translated_label)"

definition trs_generate_column_block ::
  "column \<Rightarrow> (string \<rightharpoonup> string) \<Rightarrow> nat \<Rightarrow> string list" where
  "trs_generate_column_block col_data translations indent_level =
     (let indent = replicate indent_level TAB;
          original_label = col_label col_data;
          translated_label = translations_get translations original_label
      in [indent @ ''CS:'' @ col_control col_data @ ''^LU'' @ CRLF,
          indent @ [TAB] @ ''P:'' @ original_label @ ''^'' @ CRLF,
          indent @ [TAB] @ ''A:Prompt^'' @ translated_label @ ''^'' @ CRLF,
          indent @ ''CE:'' @ CRLF])"

fun trs_columns_loop ::
  "(string \<times> column) list \<Rightarrow> (string \<rightharpoonup> string) \<Rightarrow> nat \<Rightarrow> string list \<Rightarrow> string list" where
  "trs_columns_loop [] translations indent_level lines = lines"
| "trs_columns_loop ((col_id, col_data) # rest) translations indent_level lines =
     (if is_custom col_data
      then trs_columns_loop rest translations indent_level
             (lines @ trs_generate_column_block col_data translations (indent_level + 1))
      else trs_columns_loop rest translations indent_level lines)"

definition trs_generate_view_block ::
  "view \<Rightarrow> (string \<rightharpoonup> string) \<Rightarrow> nat \<Rightarrow> string list" where
  "trs_generate_view_block view_data translations indent_level =
     (let indent = replicate indent_level TAB;
          lines = [indent @ ''CS:'' @ view_control view_data @ ''^LU'' @ CRLF];
          lines = trs_columns_loop (columns view_data) translations indent_level lines
      in lines @ [indent @ ''CE:'' @ CRLF])"

fun trs_views_loop ::
  "(string \<times> view) list \<Rightarrow> (string \<rightharpoonup> string) \<Rightarrow> nat \<Rightarrow> string list \<Rightarrow> string list" where
  "trs_views_loop [] translations indent_level lines = lines"
| "trs_views_loop ((view_id, view_data) # rest) translations indent_level lines =
     trs_views_loop rest translations indent_level
       (lines @ trs_generate_view_block view_data translations (indent_level + 1))"

definition trs_generate_lu_block ::
  "logical_unit \<Rightarrow> (string \<rightharpoonup> string) \<Rightarrow> nat \<Rightarrow> string list" where
  "trs_generate_lu_block lu_data translations indent_level =
     (let indent = replicate indent_level TAB;
          lines = [indent @ ''CS:'' @ lu_name lu_data @ ''^LU'' @ CRLF];
          lines = trs_views_loop (views lu_data) translations indent_level lines
      in lines @ [indent @ ''CE:'' @ CRLF])"

fun trs_units_loop ::
  "(string \<times> logical_unit) list \<Rightarrow> (string \<rightharpoonup> string) \<Rightarrow> string list \<Rightarrow> string list" where
  "trs_units_loop [] translations lines = lines"
| "trs_units_loop ((lu_id, lu_data) # rest) translations lines =
     trs_units_loop rest translations (lines @ trs_generate_lu_block lu_data translations 0)"

definition trs_content_lines :: "resource_tree \<Rightarrow> (string \<rightharpoonup> string) \<Rightarrow> string list" where
  "trs_content_lines data translations = trs_units_loop (logical_units data) translations []"

definition trs_generate_content :: "resource_tree \<Rightarrow> (string \<rightharpoonup> string) \<Rightarrow> string" where
  "trs_generate_content data translations = join [] (trs_content_lines data translations)"

section \<open>Files\<close>

text \<open>
  \<open>Path(file_path)\<close> is taken as the library gives it: its \<open>str()\<close> and its
  \<open>suffix\<close>. A file is missing, or opening and reading it raises (with the text of the
  exception), or it holds a text. Writing is taken to succeed; what \<open>generate_file\<close>
  writes with \<open>newline=''\<close> is stored as it is.
\<close>

record path =
  path_str :: string
  path_suffix :: string

datatype file_entry = Missing | Unreadable string | Readable string

type_synonym filesystem = "string \<Rightarrow> file_entry"

definition lng_generate_file ::
  "lng_generator \<Rightarrow> resource_tree \<Rightarrow> path \<Rightarrow> filesystem \<Rightarrow> string \<times> filesystem" where
  "lng_generate_file g data output_file fs =
     (let header = lng_generate_header g;
          content = lng_generate_content data;
          full_content = header @ content
      in (path_str output_file, fs(path_str output_file := Readable full_content)))"

definition trs_generate_file ::
  "trs_generator \<Rightarrow> resource_tree \<Rightarrow> (string \<rightharpoonup> string) \<Rightarrow> path \<Rightarrow> filesystem
     \<Rightarrow> string \<times> filesystem" where
  "trs_generate_file g data translations output_file fs =
     (let header = trs_generate_header g;
          content = trs_generate_content data translations;
          full_content = header @ content
      in (path_str output_file, fs(path_str output_file := Readable full_content)))"

section \<open>IFSValidator\<close>

record validator =
  errors :: "string list"
  warnings :: "string list"

definition add_error :: "string \<Rightarrow> validator \<Rightarrow> validator" where
  "add_error msg self = self\<lparr>errors := errors self @ [msg]\<rparr>"

definition add_warning :: "string \<Rightarrow> validator \<Rightarrow> validator" where
  "add_warning msg self = self\<lparr>warnings := warnings self @ [msg]\<rparr>"

fun required_fields_loop :: "string list \<Rightarrow> string \<Rightarrow> validator \<Rightarrow> validator" where
  "required_fields_loop [] header_text self = self"
| "required_fields_loop (field # rest) header_text self =
     required_fields_loop rest header_text
       (if \<not> str_in field header_text
        then add_error (''Missing required header field: '' @ field) self
        else self)"

definition validate_header :: "string list \<Rightarrow> bool \<Rightarrow> validator \<Rightarrow> validator" where
  "validate_header lines is_lng self =
     (if length lines < 10 then add_error ''File too short, missing header'' self
      else
        let expected_type = (if is_lng then ''IFS Foundation Language File''
                             else ''IFS Foundation Translation File'');
            header_text = join [] (take 15 lines);
            self = (if \<not> str_in expected_type header_text
                    then add_error (''Invalid file type header. Expected: '' @ expected_type) self
                    else self);
            self = (if \<not> str_in ''Type version: 10.00'' header_text
                    then add_warning ''Type version is not 10.00'' self
                    else self)
        in required_fields_loop [''Module:'', ''Layer:'', ''Main Type:'', ''Sub Type:'']
             header_text self)"

fun find_content_start_loop :: "nat \<Rightarrow> string list \<Rightarrow> nat option" where
  "find_content_start_loop i [] = None"
| "find_content_start_loop i (line # rest) =
     (if startswith (strip line) ''CS:'' then Some i
      else find_content_start_loop (i + 1) rest)"

definition find_content_start :: "string list \<Rightarrow> nat option" where
  "find_content_start lines = find_content_start_loop 0 lines"

text \<open>
  \<open>re.match(r'CS:([^^]+)', stripped)\<close>: after \<open>CS:\<close> at the start, the group takes
  every character up to the first caret, and there must be at least one.
\<close>

definition re_match_cs :: "string \<Rightarrow> string option" where
  "re_match_cs stripped =
     (if startswith stripped ''CS:''
      then (let identifier = takeWhile (\<lambda>c. c \<noteq> CHR ''^'') (drop 3 stripped)
            in if identifier = [] then None else Some identifier)
      else None)"

text \<open>
  The scan of \<open>_validate_cs_ce_pairing\<close>. The stack is a Python list: \<open>append\<close> adds at
  the end and \<open>pop\<close> takes from the end.
\<close>

fun pairing_loop ::
  "nat \<Rightarrow> string list \<Rightarrow> nat \<Rightarrow> (string \<times> nat) list \<Rightarrow> validator
     \<Rightarrow> (string \<times> nat) list \<times> validator" where
  "pairing_loop i [] offset stack self = (stack, self)"
| "pairing_loop i (line # rest) offset stack self =
     (let line_num = i + offset + 1;
          stripped = strip line
      in if startswith stripped ''CS:'' then
           (case re_match_cs stripped of
              Some identifier \<Rightarrow>
                pairing_loop (i + 1) rest offset (stack @ [(identifier, line_num)]) self
            | None \<Rightarrow>
                pairing_loop (i + 1) rest offset stack
                  (add_error (''Line '' @ str_nat line_num @ '': Malformed CS line: '' @ stripped)
                     self))
         else if startswith stripped ''CE:'' then
           (if stack = [] then
              pairing_loop (i + 1) rest offset stack
                (add_error (''Line '' @ str_nat line_num @ '': CE without matching CS'') self)
            else pairing_loop (i + 1) rest offset (butlast stack) self)
         else pairing_loop (i + 1) rest offset stack self)"

fun unclosed_loop :: "(string \<times> nat) list \<Rightarrow> validator \<Rightarrow> validator" where
  "unclosed_loop [] self = self"
| "unclosed_loop ((identifier, line_num) # rest) self =
     unclosed_loop rest
       (add_error (''Line '' @ str_nat line_num @ '': CS '' @ [CHR 0x27] @ identifier
                     @ [CHR 0x27] @ '' not closed with CE'') self)"

definition validate_cs_ce_pairing :: "string list \<Rightarrow> nat \<Rightarrow> validator \<Rightarrow> validator" where
  "validate_cs_ce_pairing content_lines offset self =
     (case pairing_loop 0 content_lines offset [] self of
        (stack, self) \<Rightarrow> unclosed_loop stack self)"

text \<open>The count of leading tabs that the source also makes here is never used.\<close>

fun indentation_loop :: "nat \<Rightarrow> string list \<Rightarrow> nat \<Rightarrow> validator \<Rightarrow> validator" where
  "indentation_loop i [] offset self = self"
| "indentation_loop i (line # rest) offset self =
     (let line_num = i + offset + 1
      in if strip line = [] then indentation_loop (i + 1) rest offset self
         else indentation_loop (i + 1) rest offset
                (if startswith line '' '' \<and> \<not> startswith line [TAB]
                 then add_warning (''Line '' @ str_nat line_num
                                     @ '': Uses spaces instead of tabs for indentation'') self
                 else self))"

definition validate_indentation :: "string list \<Rightarrow> nat \<Rightarrow> validator \<Rightarrow> validator" where
  "validate_indentation content_lines offset self = indentation_loop 0 content_lines offset self"

fun lng_structure_loop :: "nat \<Rightarrow> string list \<Rightarrow> nat \<Rightarrow> validator \<Rightarrow> validator" where
  "lng_structure_loop i [] offset self = self"
| "lng_structure_loop i (line # rest) offset self =
     (let line_num = i + offset + 1;
          stripped = strip line;
          self = (if startswith stripped ''CS:'' then
                    (let parts = split_on (CHR ''^'') stripped
                     in if length parts \<noteq> 5
                        then add_error (''Line '' @ str_nat line_num
                                          @ '': Invalid CS format. Expected 5 parts, got ''
                                          @ str_nat (length parts)) self
                        else self)
                  else self);
          self = (if startswith stripped ''A:Prompt^'' then
                    (if \<not> endswith stripped ''^''
                     then add_error (''Line '' @ str_nat line_num
                                       @ '': A:Prompt should end with ^'') self
                     else self)
                  else self)
      in lng_structure_loop (i + 1) rest offset self)"

definition validate_lng_structure :: "string list \<Rightarrow> nat \<Rightarrow> validator \<Rightarrow> validator" where
  "validate_lng_structure content_lines offset self =
     lng_structure_loop 0 content_lines offset self"

fun trs_structure_loop :: "nat \<Rightarrow> string list \<Rightarrow> nat \<Rightarrow> validator \<Rightarrow> validator" where
  "trs_structure_loop i [] offset self = self"
| "trs_structure_loop i (line # rest) offset self =
     (let line_num = i + offset + 1;
          stripped = strip line;
          self = (if startswith stripped ''CS:'' then
                    (let parts = split_on (CHR ''^'') stripped
                     in if length parts \<noteq> 2
                        then add_error (''Line '' @ str_nat line_num
                                          @ '': Invalid CS format for .trs. Expected 2 parts, got ''
                                          @ str_nat (length parts)) self
                        else self)
                  else self);
          self = (if startswith stripped ''P:'' then
                    (if \<not> endswith stripped ''^''
                     then add_error (''Line '' @ str_nat line_num
                                       @ '': P: line should end with ^'') self
                     else self)
                  else self);
          self = (if startswith stripped ''A:Prompt^'' then
                    (if \<not> endswith stripped ''^''
                     then add_error (''Line '' @ str_nat line_num
                                       @ '': A:Prompt should end with ^'') self
                     else self)
                  else self)
      in trs_structure_loop (i + 1) rest offset self)"

definition validate_trs_structure :: "string list \<Rightarrow> nat \<Rightarrow> validator \<Rightarrow> validator" where
  "validate_trs_structure content_lines offset self =
     trs_structure_loop 0 content_lines offset self"

text \<open>
  \<open>validate_file\<close> returns the triple \<open>(is_valid, errors, warnings)\<close>; the validator
  object after the call is returned beside it.
\<close>

definition validate_file ::
  "validator \<Rightarrow> path \<Rightarrow> filesystem \<Rightarrow> (bool \<times> string list \<times> string list) \<times> validator" where
  "validate_file self file_path fs =
     (let self = self\<lparr>errors := [], warnings := []\<rparr>
      in case fs (path_str file_path) of
           Missing \<Rightarrow>
             (let self = add_error (''File does not exist: '' @ path_str file_path) self
              in ((False, errors self, warnings self), self))
         | Unreadable e \<Rightarrow>
             (let self = add_error (''Failed to read file: '' @ e) self
              in ((False, errors self, warnings self), self))
         | Readable text \<Rightarrow>
             (let lines = readlines text;
                  is_lng = (path_suffix file_path = ''.lng'');
                  is_trs = (path_suffix file_path = ''.trs'')
              in if \<not> (is_lng \<or> is_trs) then
                   (let self = add_error (''Unknown file type: '' @ path_suffix file_path) self
                    in ((False, errors self, warnings self), self))
                 else
                   (let self = validate_header lines is_lng self
                    in case find_content_start lines of
                         None \<Rightarrow>
                           (let self = add_error ''Could not find content section'' self
                            in ((False, errors self, warnings self), self))
                       | Some content_start \<Rightarrow>
                           (let self = validate_cs_ce_pairing (drop content_start lines)
                                         content_start self;
                                self = validate_indentation (drop content_start lines)
                                         content_start self;
                                self = (if is_lng
                                        then validate_lng_structure (drop content_start lines)
                                               content_start self
                                        else validate_trs_structure (drop content_start lines)
                                               content_start self);
                                is_valid = (length (errors self) = 0)
                            in ((is_valid, errors self, warnings self), self)))))"

section \<open>What the claims ask of their inputs\<close>

text \<open>
  A string with no line break holds neither a carriage return nor a line feed, the two
  characters that end a line when the file is read back.
\<close>

definition no_linebreak :: "string \<Rightarrow> bool" where
  "no_linebreak s \<longleftrightarrow> CR \<notin> set s \<and> LF \<notin> set s"

text \<open>
  An identifier that can stand in a \<open>CS:\<close> line: not empty, no caret, no line break.
\<close>

definition name_ok :: "string \<Rightarrow> bool" where
  "name_ok s \<longleftrightarrow> s \<noteq> [] \<and> CHR ''^'' \<notin> set s \<and> no_linebreak s"

text \<open>
  The columns of a view that the encoders emit: those with \<open>is_custom\<close>, in the order of
  the dictionary.
\<close>

definition custom_columns :: "view \<Rightarrow> column list" where
  "custom_columns v = filter is_custom (map snd (columns v))"

text \<open>
  A tree that the encoders can write safely: it has a logical unit; every logical unit
  name, view identifier and custom column identifier is a good identifier; the labels
  that are written (of logical units and of custom columns) hold no line break.
\<close>

definition column_ok :: "column \<Rightarrow> bool" where
  "column_ok c \<longleftrightarrow> name_ok (col_control c) \<and> no_linebreak (col_label c)"

definition view_ok :: "view \<Rightarrow> bool" where
  "view_ok v \<longleftrightarrow> name_ok (view_control v) \<and> (\<forall>c \<in> set (custom_columns v). column_ok c)"

definition lu_ok :: "logical_unit \<Rightarrow> bool" where
  "lu_ok lu \<longleftrightarrow> name_ok (lu_name lu) \<and> no_linebreak (lu_label lu)
     \<and> (\<forall>v \<in> set (map snd (views lu)). view_ok v)"

definition tree_ok :: "resource_tree \<Rightarrow> bool" where
  "tree_ok data \<longleftrightarrow> logical_units data \<noteq> []
     \<and> (\<forall>lu \<in> set (map snd (logical_units data)). lu_ok lu)"

text \<open>
  The fields that the two headers print, and the translations of a map, with no line
  break.
\<close>

definition lng_fields_ok :: "lng_generator \<Rightarrow> bool" where
  "lng_fields_ok g \<longleftrightarrow> no_linebreak (lng_module g) \<and> no_linebreak (lng_layer g)
     \<and> no_linebreak (lng_main_type g) \<and> no_linebreak (lng_sub_type g)"

definition trs_fields_ok :: "trs_generator \<Rightarrow> bool" where
  "trs_fields_ok g \<longleftrightarrow> no_linebreak (trs_module g) \<and> no_linebreak (trs_lang_code g)
     \<and> no_linebreak (trs_culture g) \<and> no_linebreak (trs_layer g)
     \<and> no_linebreak (trs_main_type g) \<and> no_linebreak (trs_sub_type g)"

definition translations_ok :: "(string \<rightharpoonup> string) \<Rightarrow> bool" where
  "translations_ok translations \<longleftrightarrow> (\<forall>t \<in> ran translations. no_linebreak t)"

text \<open>
  No logical unit name, view identifier or custom column identifier holds a caret.
\<close>

definition identifiers_caret_free :: "resource_tree \<Rightarrow> bool" where
  "identifiers_caret_free data \<longleftrightarrow>
     (\<forall>lu \<in> set (map snd (logical_units data)).
        CHR ''^'' \<notin> set (lu_name lu)
        \<and> (\<forall>v \<in> set (map snd (views lu)).
              CHR ''^'' \<notin> set (view_control v)
              \<and> (\<forall>c \<in> set (custom_columns v). CHR ''^'' \<notin> set (col_control c))))"

text \<open>
  No logical unit name, view identifier or custom column identifier, and no label that is
  written (of a logical unit or of a custom column), holds a line break.
\<close>

definition tree_linebreak_free :: "resource_tree \<Rightarrow> bool" where
  "tree_linebreak_free data \<longleftrightarrow>
     (\<forall>lu \<in> set (map snd (logical_units data)).
        no_linebreak (lu_name lu) \<and> no_linebreak (lu_label lu)
        \<and> (\<forall>v \<in> set (map snd (views lu)).
              no_linebreak (view_control v)
              \<and> (\<forall>c \<in> set (custom_columns v).
                    no_linebreak (col_control c) \<and> no_linebreak (col_label c))))"

section \<open>The inputs of the scenarios\<close>

text \<open>
  The tree of Scenarios A and B, as in the self-tests of both generators, and the
  translation map of Scenario B; \<open>CHR 0xE4\<close> is the letter a with diaeresis.
\<close>

definition scenario_column :: column where
  "scenario_column = \<lparr>col_control = ''C_TEST_FIELD'', col_label = ''Test Field'', is_custom = True\<rparr>"

definition scenario_view :: view where
  "scenario_view = \<lparr>view_control = ''TEST_VIEW'', view_label = ''Test View'', columns = [(''C_TEST_FIELD'', scenario_column)]\<rparr>"

definition scenario_lu :: logical_unit where
  "scenario_lu = \<lparr>lu_name = ''TestLU'', lu_label = ''Test Logical Unit'', views = [(''TEST_VIEW'', scenario_view)]\<rparr>"

definition scenario_tree :: resource_tree where
  "scenario_tree = \<lparr>tree_module = ''ESSPRO'', tree_layer = ''Cust'', logical_units = [(''TestLU'', scenario_lu)]\<rparr>"

definition scenario_translations :: "string \<rightharpoonup> string" where
  "scenario_translations = [''Test Field'' \<mapsto> ''Testf'' @ [CHR 0xE4] @ ''lt'']"

text \<open>
  The column block as Scenario B words it: no tab before \<open>CS:\<close>, two before \<open>P:\<close> and
  \<open>A:Prompt\<close>, one before \<open>CE:\<close>.
\<close>

definition scenario_B_claimed :: string where
  "scenario_B_claimed =
     ''CS:C_TEST_FIELD^LU'' @ CRLF @
     [TAB, TAB] @ ''P:Test Field^'' @ CRLF @
     [TAB, TAB] @ ''A:Prompt^Testf'' @ [CHR 0xE4] @ ''lt^'' @ CRLF @
     [TAB] @ ''CE:'' @ CRLF"

text \<open>
  The texts of Scenarios C and D, and the text of Scenario D after the header of a
  definition file.
\<close>

definition scenario_C_text :: string where
  "scenario_C_text = ''CS:A^LU'' @ CRLF @ ''CS:B^LU'' @ CRLF @ ''CE:'' @ CRLF"

definition scenario_D_text :: string where
  "scenario_D_text = ''CE:'' @ CRLF"

definition scenario_D_file :: string where
  "scenario_D_file = lng_generate_header (LNGGenerator ''ESSPRO'' ''Cust'') @ scenario_D_text"

text \<open>
  Paths with the two suffixes, and the file system that holds no file.
\<close>

definition lng_path :: "string \<Rightarrow> path" where
  "lng_path s = \<lparr>path_str = s, path_suffix = ''.lng''\<rparr>"

definition trs_path :: "string \<Rightarrow> path" where
  "trs_path s = \<lparr>path_str = s, path_suffix = ''.trs''\<rparr>"

definition no_file :: filesystem where
  "no_file = (\<lambda>p. Missing)"

text \<open>
  Four content lines as the validator reads them: the block \<open>A\<close>, and inside it a block
  whose \<open>CS:\<close> line has no identifier.
\<close>

definition malformed_example :: "string list" where
  "malformed_example = [''CS:A^LU'' @ [LF], [TAB] @ ''CS:^LU'' @ [LF], [TAB] @ ''CE:'' @ [LF], ''CE:'' @ [LF]]"

text \<open>
  The tree of the scenarios with the empty name for its logical unit, and a translation
  map whose one translation holds a line feed.
\<close>

definition unnamed_tree :: resource_tree where
  "unnamed_tree = scenario_tree\<lparr>logical_units := [(''TestLU'', scenario_lu\<lparr>lu_name := []\<rparr>)]\<rparr>"

definition broken_translations :: "string \<rightharpoonup> string" where
  "broken_translations = [''Test Field'' \<mapsto> ''Test'' @ [LF] @ ''falt'']"

text \<open>
  The tree of the scenarios with a line feed in the label of its column, followed by the
  text \<open>CS:y\<close>. No identifier of this tree holds a caret.
\<close>

definition injected_tree :: resource_tree where
  "injected_tree = scenario_tree\<lparr>logical_units :=
     [(''TestLU'', scenario_lu\<lparr>views :=
        [(''TEST_VIEW'', scenario_view\<lparr>columns :=
           [(''C_TEST_FIELD'', scenario_column\<lparr>col_label := ''x'' @ [LF] @ ''CS:y''\<rparr>)]\<rparr>)]\<rparr>)]\<rparr>"

section \<open>Proof devices\<close>

text \<open>
  Both encoders write the same shape: a block is an opening line, some inner lines one
  level deeper, its child blocks one level deeper, and the closing line \<open>CE:\<close>. A block
  is flattened to items, each a depth and the text of a line without its indentation and
  its line end. \<open>emit\<close> is the line as it is written and \<open>read_back\<close> the line as
  \<open>readlines\<close> returns it.
\<close>

datatype block = Block string "string list" "block list"

fun block_items :: "nat \<Rightarrow> block \<Rightarrow> (nat \<times> string) list" where
  "block_items d (Block opening inner children) =
     (d, opening) # map (Pair (Suc d)) inner
       @ concat (map (block_items (Suc d)) children) @ [(d, ''CE:'')]"

definition emit :: "nat \<times> string \<Rightarrow> string" where
  "emit item = replicate (fst item) TAB @ snd item @ CRLF"

definition read_back :: "nat \<times> string \<Rightarrow> string" where
  "read_back item = replicate (fst item) TAB @ snd item @ [LF]"

text \<open>
  The blocks of the two encoders. The lemmas \<open>lng_lu_block_items\<close> and
  \<open>trs_lu_block_items\<close> below show that the loops of the generators write exactly the
  items of these blocks.
\<close>

definition lng_column_tree :: "column \<Rightarrow> block" where
  "lng_column_tree c =
     Block (''CS:'' @ col_control c @ ''^LU^Column^N^N'') [''A:Prompt^'' @ col_label c @ ''^''] []"

definition lng_view_tree :: "view \<Rightarrow> block" where
  "lng_view_tree v =
     Block (''CS:'' @ view_control v @ ''^LU^View^N^N'') [] (map lng_column_tree (custom_columns v))"

definition lng_lu_tree :: "logical_unit \<Rightarrow> block" where
  "lng_lu_tree lu =
     Block (''CS:'' @ lu_name lu @ ''^LU^Logical Unit^N^N'') [''A:Prompt^'' @ lu_label lu @ ''^'']
       (map lng_view_tree (map snd (views lu)))"

definition lng_items :: "resource_tree \<Rightarrow> (nat \<times> string) list" where
  "lng_items data = concat (map (block_items 0) (map lng_lu_tree (map snd (logical_units data))))"

definition trs_column_tree :: "(string \<rightharpoonup> string) \<Rightarrow> column \<Rightarrow> block" where
  "trs_column_tree translations c =
     Block (''CS:'' @ col_control c @ ''^LU'')
       [''P:'' @ col_label c @ ''^'',
        ''A:Prompt^'' @ translations_get translations (col_label c) @ ''^''] []"

definition trs_view_tree :: "(string \<rightharpoonup> string) \<Rightarrow> view \<Rightarrow> block" where
  "trs_view_tree translations v =
     Block (''CS:'' @ view_control v @ ''^LU'') []
       (map (trs_column_tree translations) (custom_columns v))"

definition trs_lu_tree :: "(string \<rightharpoonup> string) \<Rightarrow> logical_unit \<Rightarrow> block" where
  "trs_lu_tree translations lu =
     Block (''CS:'' @ lu_name lu @ ''^LU'') []
       (map (trs_view_tree translations) (map snd (views lu)))"

definition trs_items :: "resource_tree \<Rightarrow> (string \<rightharpoonup> string) \<Rightarrow> (nat \<times> string) list" where
  "trs_items data translations =
     concat (map (block_items 0) (map (trs_lu_tree translations) (map snd (logical_units data))))"

definition trs_chunks :: "trs_generator \<Rightarrow> resource_tree \<Rightarrow> (string \<rightharpoonup> string) \<Rightarrow> string list" where
  "trs_chunks g data tr = map (\<lambda>h. h @ CRLF) (trs_header_lines g) @ map emit (trs_items data tr)"

text \<open>
  A text that \<open>strip\<close> leaves as it is between tabs and a line end; the opening lines
  and inner lines that the validator accepts without a message, for \<open>k\<close> fields; and what
  the field-count contract asks of a line.
\<close>

definition trim_ok :: "string \<Rightarrow> bool" where
  "trim_ok b \<longleftrightarrow> b \<noteq> [] \<and> \<not> is_space (hd b) \<and> \<not> is_space (last b)"

definition opening_ok :: "nat \<Rightarrow> string \<Rightarrow> bool" where
  "opening_ok k b \<longleftrightarrow>
     no_linebreak b \<and> startswith b ''CS:'' \<and> re_match_cs b \<noteq> None \<and> \<not> is_space (last b)
     \<and> length (split_on (CHR ''^'') b) = k"

definition inner_ok :: "string \<Rightarrow> bool" where
  "inner_ok b \<longleftrightarrow>
     no_linebreak b \<and> trim_ok b \<and> \<not> startswith b ''CS:'' \<and> \<not> startswith b ''CE:''
     \<and> (startswith b ''A:Prompt^'' \<longrightarrow> endswith b ''^'')
     \<and> (startswith b ''P:'' \<longrightarrow> endswith b ''^'')"

fun wf_block :: "nat \<Rightarrow> block \<Rightarrow> bool" where
  "wf_block k (Block opening inner children) \<longleftrightarrow>
     opening_ok k opening \<and> (\<forall>b \<in> set inner. inner_ok b) \<and> (\<forall>c \<in> set children. wf_block k c)"

definition item_ok :: "nat \<Rightarrow> string \<Rightarrow> bool" where
  "item_ok k b \<longleftrightarrow>
     no_linebreak b \<and> trim_ok b
     \<and> (startswith b ''CS:'' \<longrightarrow> length (split_on (CHR ''^'') b) = k)
     \<and> (startswith b ''A:Prompt^'' \<longrightarrow> endswith b ''^'')
     \<and> (startswith b ''P:'' \<longrightarrow> endswith b ''^'')"

definition cs_fields :: "nat \<Rightarrow> string \<Rightarrow> bool" where
  "cs_fields k b \<longleftrightarrow>
     trim_ok b \<and> (startswith b ''CS:'' \<longrightarrow> length (split_on (CHR ''^'') b) = k)"

text \<open>
  One round of each loop of the validator, as a function of the line number and the
  trimmed line.
\<close>

definition pairing_step ::
  "nat \<Rightarrow> string \<Rightarrow> (string \<times> nat) list \<times> validator \<Rightarrow> (string \<times> nat) list \<times> validator" where
  "pairing_step line_num stripped state =
     (case state of (stack, self) \<Rightarrow>
        if startswith stripped ''CS:'' then
          (case re_match_cs stripped of
             Some identifier \<Rightarrow> (stack @ [(identifier, line_num)], self)
           | None \<Rightarrow> (stack, add_error (''Line '' @ str_nat line_num @ '': Malformed CS line: ''
                                           @ stripped) self))
        else if startswith stripped ''CE:'' then
          (if stack = []
           then (stack, add_error (''Line '' @ str_nat line_num @ '': CE without matching CS'') self)
           else (butlast stack, self))
        else (stack, self))"

definition lng_line_step :: "nat \<Rightarrow> string \<Rightarrow> validator \<Rightarrow> validator" where
  "lng_line_step line_num stripped self =
     (let self = (if startswith stripped ''CS:'' \<and> length (split_on (CHR ''^'') stripped) \<noteq> 5
                  then add_error (''Line '' @ str_nat line_num
                                    @ '': Invalid CS format. Expected 5 parts, got ''
                                    @ str_nat (length (split_on (CHR ''^'') stripped))) self
                  else self)
      in if startswith stripped ''A:Prompt^'' \<and> \<not> endswith stripped ''^''
         then add_error (''Line '' @ str_nat line_num @ '': A:Prompt should end with ^'') self
         else self)"

definition trs_line_step :: "nat \<Rightarrow> string \<Rightarrow> validator \<Rightarrow> validator" where
  "trs_line_step line_num stripped self =
     (let self = (if startswith stripped ''CS:'' \<and> length (split_on (CHR ''^'') stripped) \<noteq> 2
                  then add_error (''Line '' @ str_nat line_num
                                    @ '': Invalid CS format for .trs. Expected 2 parts, got ''
                                    @ str_nat (length (split_on (CHR ''^'') stripped))) self
                  else self);
          self = (if startswith stripped ''P:'' \<and> \<not> endswith stripped ''^''
                  then add_error (''Line '' @ str_nat line_num @ '': P: line should end with ^'') self
                  else self)
      in if startswith stripped ''A:Prompt^'' \<and> \<not> endswith stripped ''^''
         then add_error (''Line '' @ str_nat line_num @ '': A:Prompt should end with ^'') self
         else self)"

text \<open>
  Two files that differ only in the translations of some \<open>A:Prompt\<close> lines: such a line
  is well formed in both, the validator passes over it without a message, and all other
  lines are equal.
\<close>

definition prompt_body :: "string \<Rightarrow> bool" where
  "prompt_body b \<longleftrightarrow> no_linebreak b \<and> startswith b ''A:Prompt^'' \<and> endswith b ''^''"

definition item_rel :: "nat \<times> string \<Rightarrow> nat \<times> string \<Rightarrow> bool" where
  "item_rel x y \<longleftrightarrow>
     x = y \<or> (fst x = fst y \<and> 0 < fst x \<and> prompt_body (snd x) \<and> prompt_body (snd y))"

definition items_rel :: "nat \<Rightarrow> (nat \<times> string) list \<Rightarrow> (nat \<times> string) list \<Rightarrow> bool" where
  "items_rel n xs ys \<longleftrightarrow> list_all2 item_rel xs ys \<and> take n xs = take n ys"

definition harmless :: "string \<Rightarrow> bool" where
  "harmless r \<longleftrightarrow>
     startswith (strip r) ''A:Prompt^'' \<and> endswith (strip r) ''^'' \<and> \<not> startswith r '' ''"

definition line_rel :: "string \<Rightarrow> string \<Rightarrow> bool" where
  "line_rel r1 r2 \<longleftrightarrow> r1 = r2 \<or> (harmless r1 \<and> harmless r2)"

definition ends_crlf :: "string \<Rightarrow> bool" where
  "ends_crlf c \<longleftrightarrow> (\<exists>b. c = b @ CRLF)"

section \<open>Lemmas\<close>

subsection \<open>Joining, and reading a written text back\<close>

lemma join_empty_sep: "join [] xs = concat xs"
  by (induction xs rule: join.induct[where P = "\<lambda>sep xs. sep = [] \<longrightarrow> join sep xs = concat xs", rule_format, of "[]"]) auto

lemma join_terminated: "xs \<noteq> [] \<Longrightarrow> join sep xs @ sep = concat (map (\<lambda>x. x @ sep) xs)"
  by (induction sep xs rule: join.induct) auto

lemma universal_newlines_Cons: "c \<noteq> CR \<Longrightarrow> universal_newlines (c # xs) = c # universal_newlines xs"
  by (cases xs) auto

lemma universal_newlines_CRLF: "universal_newlines (CR # LF # xs) = LF # universal_newlines xs"
  by simp

lemma universal_newlines_body:
  "CR \<notin> set b \<Longrightarrow> universal_newlines (b @ CR # LF # xs) = b @ LF # universal_newlines xs"
  by (induction b) (auto simp: universal_newlines_Cons universal_newlines_CRLF simp del: universal_newlines.simps)

lemma keepends_body: "LF \<notin> set b \<Longrightarrow> keepends (b @ LF # xs) = (b @ [LF]) # keepends xs"
  by (induction b) auto

lemma readlines_line:
  "no_linebreak b \<Longrightarrow> readlines (b @ CRLF @ xs) = (b @ [LF]) # readlines xs"
  by (simp add: readlines_def no_linebreak_def universal_newlines_body keepends_body)

lemma readlines_Nil: "readlines [] = []"
  by (simp add: readlines_def)

lemma readlines_lines:
  "\<forall>b \<in> set bs. no_linebreak b \<Longrightarrow>
   readlines (concat (map (\<lambda>b. b @ CRLF) bs)) = map (\<lambda>b. b @ [LF]) bs"
  by (induction bs) (simp_all add: readlines_Nil readlines_line[simplified])

lemma universal_newlines_append_LF:
  "universal_newlines (a @ LF # b) = universal_newlines (a @ [LF]) @ universal_newlines b"
proof (induction a rule: universal_newlines.induct)
  case 1
  then show ?case by (simp add: universal_newlines_Cons)
next
  case (2 c)
  then show ?case by (auto simp: universal_newlines_Cons)
next
  case (3 c d cs)
  then show ?case by (cases cs) auto
qed

lemma keepends_nonempty: "s \<noteq> [] \<Longrightarrow> keepends s \<noteq> []"
  by (cases s) (auto split: list.splits)

lemma keepends_append_LF:
  "keepends (a @ LF # b) = keepends (a @ [LF]) @ keepends b"
  by (induction a) (auto split: list.splits simp: keepends_nonempty)

lemma universal_newlines_ends_LF:
  "\<exists>r. universal_newlines (a @ [LF]) = r @ [LF]"
proof (induction a rule: universal_newlines.induct)
  case 1
  then show ?case by simp
next
  case (2 c)
  then show ?case by auto
next
  case (3 c d cs)
  then show ?case by (cases cs) auto
qed

lemma readlines_append:
  "readlines (a @ LF # b) = readlines (a @ [LF]) @ readlines b"
proof -
  obtain r where r: "universal_newlines (a @ [LF]) = r @ [LF]"
    using universal_newlines_ends_LF by blast
  have "keepends (r @ LF # universal_newlines b) = keepends (r @ [LF]) @ keepends (universal_newlines b)"
    by (rule keepends_append_LF)
  then show ?thesis
    by (simp add: readlines_def universal_newlines_append_LF[of a b] r)
qed

lemma universal_newlines_nonempty: "s \<noteq> [] \<Longrightarrow> universal_newlines s \<noteq> []"
  by (induction s rule: universal_newlines.induct) auto

lemma readlines_nonempty: "s \<noteq> [] \<Longrightarrow> readlines s \<noteq> []"
  by (simp add: readlines_def keepends_nonempty universal_newlines_nonempty)

subsection \<open>Trimming\<close>

lemma rstrip_append_space: "\<forall>c \<in> set post. is_space c \<Longrightarrow> rstrip (s @ post) = rstrip s"
  using dropWhile_append2[of "rev post" is_space "rev s"] by (simp add: rstrip_def)

lemma strip_append_space: "\<forall>c \<in> set post. is_space c \<Longrightarrow> strip (s @ post) = strip s"
  by (simp add: strip_def rstrip_append_space)

lemma rstrip_last: "s \<noteq> [] \<Longrightarrow> \<not> is_space (last s) \<Longrightarrow> rstrip s = s"
  by (cases s rule: rev_cases) (simp_all add: rstrip_def)

lemma lstrip_append_space: "\<forall>c \<in> set pre. is_space c \<Longrightarrow> lstrip (pre @ s) = lstrip s"
  using dropWhile_append2[of pre is_space s] by (simp add: lstrip_def)

lemma lstrip_hd: "s \<noteq> [] \<Longrightarrow> \<not> is_space (hd s) \<Longrightarrow> lstrip s = s"
  by (cases s) (simp_all add: lstrip_def)

lemma strip_core:
  assumes "b \<noteq> []" "\<not> is_space (hd b)" "\<not> is_space (last b)"
    and "\<forall>c \<in> set pre. is_space c" "\<forall>c \<in> set post. is_space c"
  shows "strip (pre @ b @ post) = b"
proof -
  have "rstrip (pre @ b @ post) = rstrip ((pre @ b) @ post)" by simp
  also have "\<dots> = rstrip (pre @ b)" using assms(5) by (rule rstrip_append_space)
  also have "\<dots> = pre @ b" using assms(1,3) by (intro rstrip_last) simp_all
  finally show ?thesis
    using assms(1,2,4) by (simp add: strip_def lstrip_append_space lstrip_hd)
qed

lemma is_space_TAB [simp]: "is_space TAB" by (simp add: is_space_def)

lemma is_space_LF [simp]: "is_space LF" by (simp add: is_space_def)

lemma is_space_CR [simp]: "is_space CR" by (simp add: is_space_def)

lemma strip_emit: "trim_ok b \<Longrightarrow> strip (emit (n, b)) = b"
  unfolding emit_def trim_ok_def by (simp add: strip_core)

lemma strip_read_back: "trim_ok b \<Longrightarrow> strip (read_back (n, b)) = b"
  unfolding read_back_def trim_ok_def by (simp add: strip_core)

lemma strip_keeps2:
  assumes "\<not> is_space c" "\<not> is_space d"
  shows "take 2 (strip (c # d # xs)) = [c, d]"
proof -
  have "rstrip ([c, d] @ xs) = [c, d] @ (if \<forall>x \<in> set xs. is_space x then [] else rstrip xs)"
  proof (cases "\<forall>x \<in> set xs. is_space x")
    case True
    then have "rstrip ([c, d] @ xs) = rstrip [c, d]" by (rule rstrip_append_space)
    also have "\<dots> = [c, d]" using assms by (simp add: rstrip_def)
    finally show ?thesis using True by simp
  next
    case False
    then obtain x where "x \<in> set (rev xs)" "\<not> is_space x" by auto
    then have "dropWhile is_space (rev xs @ [d, c]) = dropWhile is_space (rev xs) @ [d, c]"
      by (rule dropWhile_append1)
    then show ?thesis using False by (simp add: rstrip_def)
  qed
  then obtain r where "rstrip (c # d # xs) = c # d # r" by simp
  then show ?thesis using assms by (simp add: strip_def lstrip_def)
qed

lemma not_cs_by_head:
  assumes "\<not> is_space c" "\<not> is_space d" "[c, d] \<noteq> ''CS''"
  shows "\<not> startswith (strip (c # d # xs)) ''CS:''"
proof
  assume "startswith (strip (c # d # xs)) ''CS:''"
  then obtain r where "strip (c # d # xs) = ''CS:'' @ r"
    by (auto simp: startswith_def prefix_def)
  then have "take 2 (strip (c # d # xs)) = ''CS''" by simp
  with strip_keeps2[OF assms(1,2)] assms(3) show False by simp
qed

subsection \<open>The nesting scan passes over a well-formed block\<close>

lemma opening_trim_ok: "opening_ok k b \<Longrightarrow> trim_ok b"
  by (auto simp: opening_ok_def trim_ok_def startswith_def prefix_def is_space_def)

lemma trim_ok_CE: "trim_ok ''CE:''"
  by (simp add: trim_ok_def is_space_def)

declare pairing_loop.simps(2) [simp del]

lemma pairing_open:
  assumes "opening_ok k b"
  shows "pairing_loop i (read_back (n, b) # rest) offset stack self =
         pairing_loop (i + 1) rest offset (stack @ [(the (re_match_cs b), i + offset + 1)]) self"
  using assms opening_trim_ok[OF assms]
  by (auto simp: pairing_loop.simps(2) strip_read_back opening_ok_def Let_def)

lemma pairing_close:
  "pairing_loop i (read_back (n, ''CE:'') # rest) offset (stack @ [x]) self =
   pairing_loop (i + 1) rest offset stack self"
  by (simp add: pairing_loop.simps(2) strip_read_back trim_ok_CE startswith_def Let_def)

lemma pairing_inner:
  assumes "inner_ok b"
  shows "pairing_loop i (read_back (n, b) # rest) offset stack self =
         pairing_loop (i + 1) rest offset stack self"
  using assms by (simp add: pairing_loop.simps(2) strip_read_back inner_ok_def Let_def)

lemma pairing_inners:
  "\<forall>b \<in> set bs. inner_ok b \<Longrightarrow>
   pairing_loop i (map read_back (map (Pair n) bs) @ rest) offset stack self =
   pairing_loop (i + length bs) rest offset stack self"
  by (induction bs arbitrary: i) (simp_all add: pairing_inner)

lemma pairing_children:
  assumes "\<And>c i d rest stack. c \<in> set cs \<Longrightarrow>
     pairing_loop i (map read_back (block_items d c) @ rest) offset stack self =
     pairing_loop (i + length (block_items d c)) rest offset stack self"
  shows "pairing_loop i (map read_back (concat (map (block_items d) cs)) @ rest) offset stack self =
         pairing_loop (i + length (concat (map (block_items d) cs))) rest offset stack self"
  using assms
proof (induction cs arbitrary: i)
  case Nil
  then show ?case by simp
next
  case (Cons c cs)
  have "pairing_loop i (map read_back (block_items d c) @ (map read_back (concat (map (block_items d) cs)) @ rest)) offset stack self =
        pairing_loop (i + length (block_items d c)) (map read_back (concat (map (block_items d) cs)) @ rest) offset stack self"
    by (rule Cons.prems) simp
  also have "\<dots> = pairing_loop (i + length (block_items d c) + length (concat (map (block_items d) cs))) rest offset stack self"
    by (rule Cons.IH) (simp add: Cons.prems)
  finally show ?case by (simp add: add.assoc)
qed

lemma pairing_block:
  "wf_block k t \<Longrightarrow>
   pairing_loop i (map read_back (block_items d t) @ rest) offset stack self =
   pairing_loop (i + length (block_items d t)) rest offset stack self"
proof (induction t arbitrary: i d rest stack)
  case (Block ob inner children)
  let ?kids = "concat (map (block_items (Suc d)) children)"
  let ?st = "stack @ [(the (re_match_cs ob), i + offset + 1)]"
  have op: "opening_ok k ob" and inn: "\<forall>b \<in> set inner. inner_ok b"
    and kids: "\<forall>c \<in> set children. wf_block k c"
    using Block.prems by simp_all
  have "pairing_loop i (map read_back (block_items d (Block ob inner children)) @ rest) offset stack self =
        pairing_loop i (read_back (d, ob) # (map read_back (map (Pair (Suc d)) inner)
           @ (map read_back ?kids @ (read_back (d, ''CE:'') # rest)))) offset stack self"
    by simp
  also have "\<dots> = pairing_loop (i + 1) (map read_back (map (Pair (Suc d)) inner)
           @ (map read_back ?kids @ (read_back (d, ''CE:'') # rest))) offset ?st self"
    by (rule pairing_open[OF op])
  also have "\<dots> = pairing_loop (i + 1 + length inner) (map read_back ?kids @ (read_back (d, ''CE:'') # rest)) offset ?st self"
    by (rule pairing_inners[OF inn])
  also have "\<dots> = pairing_loop (i + 1 + length inner + length ?kids) (read_back (d, ''CE:'') # rest) offset ?st self"
    by (rule pairing_children) (use Block.IH kids in auto)
  also have "\<dots> = pairing_loop (i + 1 + length inner + length ?kids + 1) rest offset stack self"
    by (rule pairing_close)
  finally show ?case by (simp add: add.assoc)
qed

lemma pairing_blocks:
  assumes "\<forall>t \<in> set ts. wf_block k t"
  shows "pairing_loop i (map read_back (concat (map (block_items d) ts)) @ rest) offset stack self =
         pairing_loop (i + length (concat (map (block_items d) ts))) rest offset stack self"
  by (rule pairing_children) (use assms pairing_block in auto)

lemma validate_cs_ce_pairing_blocks:
  assumes "\<forall>t \<in> set ts. wf_block k t"
  shows "validate_cs_ce_pairing (map read_back (concat (map (block_items 0) ts))) offset self = self"
    and "fst (pairing_loop 0 (map read_back (concat (map (block_items 0) ts))) offset [] self) = []"
  using pairing_blocks[OF assms, of 0 0 "[]" offset "[]" self]
  by (simp_all add: validate_cs_ce_pairing_def)

subsection \<open>Lines that add no message\<close>

lemma item_ok_opening: "opening_ok k b \<Longrightarrow> item_ok k b"
  using opening_trim_ok[of k b]
  by (auto simp: item_ok_def opening_ok_def startswith_def prefix_def)

lemma item_ok_inner: "inner_ok b \<Longrightarrow> item_ok k b"
  by (simp add: item_ok_def inner_ok_def)

lemma item_ok_CE: "item_ok k ''CE:''"
  by (simp add: item_ok_def trim_ok_CE no_linebreak_def startswith_def)

lemma block_items_ok:
  "wf_block k t \<Longrightarrow> item \<in> set (block_items d t) \<Longrightarrow> item_ok k (snd item)"
proof (induction t arbitrary: d)
  case (Block ob inner children)
  then show ?case
    by (auto simp: item_ok_opening item_ok_inner item_ok_CE)
qed

lemma blocks_items_ok:
  "\<forall>t \<in> set ts. wf_block k t \<Longrightarrow> item \<in> set (concat (map (block_items d) ts))
   \<Longrightarrow> item_ok k (snd item)"
  by (auto dest: block_items_ok)

lemma lng_structure_items:
  "\<forall>item \<in> set items. item_ok 5 (snd item) \<Longrightarrow>
   lng_structure_loop i (map read_back items) offset self = self"
proof (induction items arbitrary: i)
  case Nil
  then show ?case by simp
next
  case (Cons item items)
  obtain n b where item: "item = (n, b)" by (cases item)
  with Cons.prems have "item_ok 5 b" by simp
  then have "strip (read_back (n, b)) = b"
    and "startswith b ''CS:'' \<longrightarrow> length (split_on (CHR ''^'') b) = 5"
    and "startswith b ''A:Prompt^'' \<longrightarrow> endswith b ''^''"
    by (simp_all add: item_ok_def strip_read_back)
  with Cons show ?case by (simp add: item Let_def)
qed

lemma trs_structure_items:
  "\<forall>item \<in> set items. item_ok 2 (snd item) \<Longrightarrow>
   trs_structure_loop i (map read_back items) offset self = self"
proof (induction items arbitrary: i)
  case Nil
  then show ?case by simp
next
  case (Cons item items)
  obtain n b where item: "item = (n, b)" by (cases item)
  with Cons.prems have "item_ok 2 b" by simp
  then have "strip (read_back (n, b)) = b"
    and "startswith b ''CS:'' \<longrightarrow> length (split_on (CHR ''^'') b) = 2"
    and "startswith b ''A:Prompt^'' \<longrightarrow> endswith b ''^''"
    and "startswith b ''P:'' \<longrightarrow> endswith b ''^''"
    by (simp_all add: item_ok_def strip_read_back)
  with Cons show ?case by (simp add: item Let_def)
qed

lemma read_back_no_space_start:
  assumes "trim_ok b"
  shows "\<not> startswith (read_back (n, b)) '' ''"
proof (cases n)
  case 0
  with assms show ?thesis
    by (cases b) (auto simp: read_back_def trim_ok_def startswith_def is_space_def)
next
  case (Suc m)
  then show ?thesis by (simp add: read_back_def startswith_def)
qed

lemma indentation_items:
  "\<forall>item \<in> set items. item_ok k (snd item) \<Longrightarrow>
   indentation_loop i (map read_back items) offset self = self"
proof (induction items arbitrary: i)
  case Nil
  then show ?case by simp
next
  case (Cons item items)
  obtain n b where item: "item = (n, b)" by (cases item)
  with Cons.prems have "trim_ok b" by (simp add: item_ok_def)
  then have "\<not> startswith (read_back (n, b)) '' ''" by (rule read_back_no_space_start)
  with Cons show ?case by (simp add: item Let_def)
qed

lemma readlines_items:
  assumes "\<forall>h \<in> set hs. no_linebreak h" "\<forall>item \<in> set items. no_linebreak (snd item)"
  shows "readlines (concat (map (\<lambda>h. h @ CRLF) hs) @ concat (map emit items)) =
         map (\<lambda>h. h @ [LF]) hs @ map read_back items"
proof -
  let ?body = "\<lambda>item. replicate (fst item) TAB @ snd item"
  have e: "emit = (\<lambda>b. b @ CRLF) \<circ> ?body" and r: "read_back = (\<lambda>b. b @ [LF]) \<circ> ?body"
    by (auto simp: emit_def read_back_def fun_eq_iff)
  have "concat (map (\<lambda>h. h @ CRLF) hs) @ concat (map emit items) =
        concat (map (\<lambda>h. h @ CRLF) (hs @ map ?body items))"
    by (simp add: e)
  moreover have "\<forall>b \<in> set (hs @ map ?body items). no_linebreak b"
    using assms by (auto simp: no_linebreak_def)
  ultimately have "readlines (concat (map (\<lambda>h. h @ CRLF) hs) @ concat (map emit items)) =
        map (\<lambda>b. b @ [LF]) (hs @ map ?body items)"
    by (simp only: readlines_lines)
  then show ?thesis by (simp add: r)
qed

subsection \<open>Substrings of the header text\<close>

lemma str_in_prefix: "str_in p (p @ r)"
  by (simp add: str_in_def)

lemma str_in_middle: "str_in p (a @ p @ r)"
  by (simp add: str_in_def)

lemma str_in_concat: "l \<in> set ls \<Longrightarrow> str_in p l \<Longrightarrow> str_in p (concat ls)"
proof -
  assume "l \<in> set ls" "str_in p l"
  then obtain xs ys where "ls = xs @ l # ys" by (auto simp: in_set_conv_decomp)
  moreover obtain a r where "l = a @ p @ r" using \<open>str_in p l\<close> by (auto simp: str_in_def sublist_def)
  ultimately have "concat ls = (concat xs @ a) @ p @ (r @ concat ys)" by simp
  then show ?thesis by (simp only: str_in_middle)
qed

lemma str_in_header_text:
  assumes "l \<in> set hs" "str_in p l" "length hs \<le> 15"
  shows "str_in p (join [] (take 15 (hs @ rest)))"
proof -
  have "take 15 (hs @ rest) = hs @ take (15 - length hs) rest" using assms(3) by simp
  then have "l \<in> set (take 15 (hs @ rest))" using assms(1) by simp
  then show ?thesis using assms(2) by (simp only: join_empty_sep str_in_concat)
qed

subsection \<open>The definition encoder writes blocks\<close>

lemma lng_column_block_items:
  "lng_generate_column_block c d = map emit (block_items d (lng_column_tree c))"
  unfolding lng_generate_column_block_def lng_column_tree_def Let_def
  by (simp add: emit_def replicate_append_same)

lemma lng_columns_loop_items:
  "lng_columns_loop cols d lines =
   lines @ map emit (concat (map (block_items (Suc d))
                       (map lng_column_tree (filter is_custom (map snd cols)))))"
  by (induction cols d lines rule: lng_columns_loop.induct)
     (simp_all add: lng_column_block_items)

lemma lng_view_block_items:
  "lng_generate_view_block v d = map emit (block_items d (lng_view_tree v))"
  unfolding lng_generate_view_block_def lng_view_tree_def Let_def custom_columns_def
  by (simp add: lng_columns_loop_items emit_def)

lemma lng_views_loop_items:
  "lng_views_loop vs d lines =
   lines @ map emit (concat (map (block_items (Suc d)) (map lng_view_tree (map snd vs))))"
  by (induction vs d lines rule: lng_views_loop.induct)
     (simp_all add: lng_view_block_items)

lemma lng_lu_block_items:
  "lng_generate_lu_block lu d = map emit (block_items d (lng_lu_tree lu))"
  unfolding lng_generate_lu_block_def lng_lu_tree_def Let_def
  by (simp add: lng_views_loop_items emit_def replicate_append_same)

lemma lng_units_loop_items:
  "lng_units_loop lus lines =
   lines @ map emit (concat (map (block_items 0) (map lng_lu_tree (map snd lus))))"
  by (induction lus lines rule: lng_units_loop.induct)
     (simp_all add: lng_lu_block_items)

lemma lng_content_lines_items: "lng_content_lines data = map emit (lng_items data)"
  by (simp add: lng_content_lines_def lng_items_def lng_units_loop_items)

lemma lng_generate_content_items: "lng_generate_content data = concat (map emit (lng_items data))"
  by (simp add: lng_generate_content_def join_empty_sep lng_content_lines_items)

subsection \<open>The shape of the lines written\<close>

lemma length_split_on: "length (split_on sep s) = Suc (length (filter (\<lambda>c. c = sep) s))"
  by (induction s) (auto split: list.splits)

lemma filter_caret_name: "CHR ''^'' \<notin> set s \<Longrightarrow> filter (\<lambda>c. c = CHR ''^'') s = []"
  by (induction s) auto

lemma re_match_cs_name:
  "s \<noteq> [] \<Longrightarrow> CHR ''^'' \<notin> set s \<Longrightarrow> re_match_cs (''CS:'' @ s @ CHR ''^'' # r) = Some s"
proof -
  assume a: "s \<noteq> []" "CHR ''^'' \<notin> set s"
  have "takeWhile (\<lambda>c. c \<noteq> CHR ''^'') (s @ CHR ''^'' # r) = s"
    using a(2) by (induction s) auto
  with a(1) show ?thesis by (simp add: re_match_cs_def startswith_def Let_def)
qed

lemma opening_ok_lng:
  assumes "name_ok s" "sub \<in> {''Logical Unit'', ''View'', ''Column''}"
  shows "opening_ok 5 (''CS:'' @ s @ ''^LU^'' @ sub @ ''^N^N'')"
  using assms re_match_cs_name[of s "''LU^'' @ sub @ ''^N^N''"]
  by (auto simp: opening_ok_def name_ok_def no_linebreak_def startswith_def is_space_def
      length_split_on filter_caret_name simp del: split_on.simps)

lemma opening_ok_trs:
  assumes "name_ok s"
  shows "opening_ok 2 (''CS:'' @ s @ ''^LU'')"
  using assms re_match_cs_name[of s "''LU''"]
  by (auto simp: opening_ok_def name_ok_def no_linebreak_def startswith_def is_space_def
      length_split_on filter_caret_name simp del: split_on.simps)

lemma endswith_caret: "endswith (a @ s @ ''^'') ''^''"
  unfolding endswith_def suffix_def by (rule exI[of _ "a @ s"]) simp

lemma inner_ok_prompt: "no_linebreak s \<Longrightarrow> inner_ok (''A:Prompt^'' @ s @ ''^'')"
  using endswith_caret[of "''A:Prompt^''" s]
  by (auto simp: inner_ok_def no_linebreak_def trim_ok_def startswith_def is_space_def)

lemma inner_ok_P: "no_linebreak s \<Longrightarrow> inner_ok (''P:'' @ s @ ''^'')"
  using endswith_caret[of "''P:''" s]
  by (auto simp: inner_ok_def no_linebreak_def trim_ok_def startswith_def is_space_def)

lemma wf_lng_column: "column_ok c \<Longrightarrow> wf_block 5 (lng_column_tree c)"
  using opening_ok_lng[of "col_control c" "''Column''"] inner_ok_prompt[of "col_label c"]
  by (simp add: column_ok_def lng_column_tree_def)

lemma wf_lng_view: "view_ok v \<Longrightarrow> wf_block 5 (lng_view_tree v)"
  using opening_ok_lng[of "view_control v" "''View''"]
  by (simp add: view_ok_def lng_view_tree_def wf_lng_column)

lemma wf_lng_lu: "lu_ok lu \<Longrightarrow> wf_block 5 (lng_lu_tree lu)"
  using opening_ok_lng[of "lu_name lu" "''Logical Unit''"] inner_ok_prompt[of "lu_label lu"]
  by (simp add: lu_ok_def lng_lu_tree_def wf_lng_view)

subsection \<open>A written definition file validates\<close>

lemma lng_header_concat:
  "lng_generate_header g = concat (map (\<lambda>h. h @ CRLF) (lng_header_lines g))"
  using join_terminated[of "lng_header_lines g" CRLF]
  by (simp add: lng_generate_header_def lng_header_lines_def)

lemma lng_header_no_linebreak:
  "lng_fields_ok g \<Longrightarrow> \<forall>h \<in> set (lng_header_lines g). no_linebreak h"
  by (simp add: lng_fields_ok_def lng_header_lines_def separator_rule_def no_linebreak_def)

lemma lng_header_no_cs:
  "find_content_start_loop i (map (\<lambda>h. h @ [LF]) (lng_header_lines g) @ rest) =
   find_content_start_loop (i + 10) rest"
proof -
  have h: "i + 10 = Suc (Suc (Suc (Suc (Suc (Suc (Suc (Suc (Suc (Suc i)))))))))" by simp
  show ?thesis
    unfolding h
    by (simp add: lng_header_lines_def separator_rule_def not_cs_by_head is_space_def)
qed

lemma lng_header_valid:
  "validate_header (map (\<lambda>h. h @ [LF]) (lng_header_lines g) @ rest) True self = self"
proof -
  define hs where "hs = map (\<lambda>h. h @ [LF]) (lng_header_lines g)"
  have len: "length hs = 10" by (simp add: hs_def lng_header_lines_def)
  have mem: "''File Type: IFS Foundation Language File'' @ [LF] \<in> set hs"
    "''Type version: 10.00'' @ [LF] \<in> set hs"
    "''Module: '' @ lng_module g @ [LF] \<in> set hs"
    "''Layer: '' @ lng_layer g @ [LF] \<in> set hs"
    "''Main Type: '' @ lng_main_type g @ [LF] \<in> set hs"
    "''Sub Type: '' @ lng_sub_type g @ [LF] \<in> set hs"
    by (simp_all add: hs_def lng_header_lines_def)
  have s1: "str_in ''IFS Foundation Language File'' (''File Type: IFS Foundation Language File'' @ [LF])"
    using str_in_middle[of "''IFS Foundation Language File''" "''File Type: ''" "[LF]"] by simp
  have s2: "str_in ''Type version: 10.00'' (''Type version: 10.00'' @ [LF])"
    by (rule str_in_prefix)
  have s3: "str_in ''Module:'' (''Module: '' @ lng_module g @ [LF])"
    using str_in_prefix[of "''Module:''" "'' '' @ lng_module g @ [LF]"] by simp
  have s4: "str_in ''Layer:'' (''Layer: '' @ lng_layer g @ [LF])"
    using str_in_prefix[of "''Layer:''" "'' '' @ lng_layer g @ [LF]"] by simp
  have s5: "str_in ''Main Type:'' (''Main Type: '' @ lng_main_type g @ [LF])"
    using str_in_prefix[of "''Main Type:''" "'' '' @ lng_main_type g @ [LF]"] by simp
  have s6: "str_in ''Sub Type:'' (''Sub Type: '' @ lng_sub_type g @ [LF])"
    using str_in_prefix[of "''Sub Type:''" "'' '' @ lng_sub_type g @ [LF]"] by simp
  note facts = str_in_header_text[OF mem(1) s1, of rest] str_in_header_text[OF mem(2) s2, of rest]
    str_in_header_text[OF mem(3) s3, of rest] str_in_header_text[OF mem(4) s4, of rest]
    str_in_header_text[OF mem(5) s5, of rest] str_in_header_text[OF mem(6) s6, of rest]
  have "validate_header (hs @ rest) True self = self"
    using facts len by (simp add: validate_header_def Let_def)
  then show ?thesis by (simp add: hs_def)
qed

lemma lng_items_ok: "tree_ok data \<Longrightarrow> \<forall>item \<in> set (lng_items data). item_ok 5 (snd item)"
proof
  fix item
  assume t: "tree_ok data" and i: "item \<in> set (lng_items data)"
  have "\<forall>t \<in> set (map lng_lu_tree (map snd (logical_units data))). wf_block 5 t"
    using t by (auto simp: tree_ok_def wf_lng_lu)
  then show "item_ok 5 (snd item)"
    using i unfolding lng_items_def by (rule blocks_items_ok)
qed

lemma item_ok_no_linebreak: "item_ok k b \<Longrightarrow> no_linebreak b"
  by (simp add: item_ok_def)

lemma content_start_items:
  assumes "ts \<noteq> []" "\<forall>t \<in> set ts. wf_block k t"
  shows "find_content_start_loop i (map read_back (concat (map (block_items 0) ts))) = Some i"
proof -
  obtain t ts' where ts: "ts = t # ts'" using assms(1) by (cases ts) auto
  obtain ob inner children where t: "t = Block ob inner children" by (cases t)
  have "opening_ok k ob" using assms(2) by (simp add: ts t)
  then have "strip (read_back (0, ob)) = ob" "startswith ob ''CS:''"
    using opening_trim_ok[of k ob] by (simp_all add: strip_read_back opening_ok_def)
  then show ?thesis by (simp add: ts t)
qed

lemma lng_file_valid:
  assumes "lng_fields_ok g" "tree_ok data" "path_suffix p = ''.lng''"
  shows "validate_file self p (snd (lng_generate_file g data p fs)) =
         ((True, [], []), \<lparr>errors = [], warnings = []\<rparr>)"
    and "fst (pairing_loop 0 (drop 10 (readlines (lng_generate_header g @ lng_generate_content data)))
               10 [] v) = []"
proof -
  define ts where "ts = map lng_lu_tree (map snd (logical_units data))"
  define hs where "hs = map (\<lambda>h. h @ [LF]) (lng_header_lines g)"
  define v0 :: validator where "v0 = \<lparr>errors = [], warnings = []\<rparr>"
  have items: "lng_items data = concat (map (block_items 0) ts)"
    by (simp add: lng_items_def ts_def)
  have wf: "\<forall>t \<in> set ts. wf_block 5 t" and ne: "ts \<noteq> []"
    using assms(2) by (auto simp: ts_def tree_ok_def wf_lng_lu)
  have ok: "\<forall>item \<in> set (lng_items data). item_ok 5 (snd item)"
    using assms(2) by (rule lng_items_ok)
  have len: "length hs = 10" by (simp add: hs_def lng_header_lines_def)
  have lines: "readlines (lng_generate_header g @ lng_generate_content data) =
               hs @ map read_back (lng_items data)"
    unfolding lng_header_concat lng_generate_content_items hs_def
    by (rule readlines_items) (use assms(1) ok in \<open>auto simp: lng_header_no_linebreak item_ok_no_linebreak\<close>)
  have start: "find_content_start (hs @ map read_back (lng_items data)) = Some 10"
    using content_start_items[OF ne wf, of 10]
    by (simp add: find_content_start_def hs_def lng_header_no_cs items)
  have hdr: "validate_header (hs @ map read_back (lng_items data)) True v0 = v0"
    unfolding hs_def by (rule lng_header_valid)
  have pair: "validate_cs_ce_pairing (map read_back (lng_items data)) 10 v0 = v0"
    unfolding items by (rule validate_cs_ce_pairing_blocks[OF wf])
  have ind: "validate_indentation (map read_back (lng_items data)) 10 v0 = v0"
    unfolding validate_indentation_def by (rule indentation_items[OF ok])
  have str: "validate_lng_structure (map read_back (lng_items data)) 10 v0 = v0"
    unfolding validate_lng_structure_def by (rule lng_structure_items[OF ok])
  have reset: "self\<lparr>errors := [], warnings := []\<rparr> = v0"
    by (cases self) (simp add: v0_def)
  show "validate_file self p (snd (lng_generate_file g data p fs)) =
         ((True, [], []), \<lparr>errors = [], warnings = []\<rparr>)"
    unfolding validate_file_def lng_generate_file_def
    by (simp add: Let_def assms(3) reset lines start hdr pair ind str len) (simp add: v0_def)
  show "fst (pairing_loop 0 (drop 10 (readlines (lng_generate_header g @ lng_generate_content data)))
               10 [] v) = []"
    unfolding lines items by (simp add: len validate_cs_ce_pairing_blocks(2)[OF wf])
qed

subsection \<open>The translation encoder writes blocks, and its file validates\<close>

lemma trs_column_block_items:
  "trs_generate_column_block c tr d = map emit (block_items d (trs_column_tree tr c))"
  unfolding trs_generate_column_block_def trs_column_tree_def Let_def
  by (simp add: emit_def replicate_append_same)

lemma trs_columns_loop_items:
  "trs_columns_loop cols tr d lines =
   lines @ map emit (concat (map (block_items (Suc d))
                       (map (trs_column_tree tr) (filter is_custom (map snd cols)))))"
  by (induction cols tr d lines rule: trs_columns_loop.induct)
     (simp_all add: trs_column_block_items)

lemma trs_view_block_items:
  "trs_generate_view_block v tr d = map emit (block_items d (trs_view_tree tr v))"
  unfolding trs_generate_view_block_def trs_view_tree_def Let_def custom_columns_def
  by (simp add: trs_columns_loop_items emit_def)

lemma trs_views_loop_items:
  "trs_views_loop vs tr d lines =
   lines @ map emit (concat (map (block_items (Suc d)) (map (trs_view_tree tr) (map snd vs))))"
  by (induction vs tr d lines rule: trs_views_loop.induct)
     (simp_all add: trs_view_block_items)

lemma trs_lu_block_items:
  "trs_generate_lu_block lu tr d = map emit (block_items d (trs_lu_tree tr lu))"
  unfolding trs_generate_lu_block_def trs_lu_tree_def Let_def
  by (simp add: trs_views_loop_items emit_def)

lemma trs_units_loop_items:
  "trs_units_loop lus tr lines =
   lines @ map emit (concat (map (block_items 0) (map (trs_lu_tree tr) (map snd lus))))"
  by (induction lus tr lines rule: trs_units_loop.induct)
     (simp_all add: trs_lu_block_items)

lemma trs_content_lines_items: "trs_content_lines data tr = map emit (trs_items data tr)"
  by (simp add: trs_content_lines_def trs_items_def trs_units_loop_items)

lemma trs_generate_content_items:
  "trs_generate_content data tr = concat (map emit (trs_items data tr))"
  by (simp add: trs_generate_content_def join_empty_sep trs_content_lines_items)

lemma translations_get_no_linebreak:
  "translations_ok tr \<Longrightarrow> no_linebreak l \<Longrightarrow> no_linebreak (translations_get tr l)"
  by (auto simp: translations_ok_def translations_get_def ran_def split: option.splits)

lemma wf_trs_column: "translations_ok tr \<Longrightarrow> column_ok c \<Longrightarrow> wf_block 2 (trs_column_tree tr c)"
  using opening_ok_trs[of "col_control c"] inner_ok_P[of "col_label c"]
    inner_ok_prompt[of "translations_get tr (col_label c)"]
  by (simp add: column_ok_def trs_column_tree_def translations_get_no_linebreak)

lemma wf_trs_view: "translations_ok tr \<Longrightarrow> view_ok v \<Longrightarrow> wf_block 2 (trs_view_tree tr v)"
  using opening_ok_trs[of "view_control v"]
  by (simp add: view_ok_def trs_view_tree_def wf_trs_column)

lemma wf_trs_lu: "translations_ok tr \<Longrightarrow> lu_ok lu \<Longrightarrow> wf_block 2 (trs_lu_tree tr lu)"
  using opening_ok_trs[of "lu_name lu"]
  by (simp add: lu_ok_def trs_lu_tree_def wf_trs_view)

lemma trs_header_concat:
  "trs_generate_header g = concat (map (\<lambda>h. h @ CRLF) (trs_header_lines g))"
  using join_terminated[of "trs_header_lines g" CRLF]
  by (simp add: trs_generate_header_def trs_header_lines_def)

lemma trs_header_no_linebreak:
  "trs_fields_ok g \<Longrightarrow> \<forall>h \<in> set (trs_header_lines g). no_linebreak h"
  by (simp add: trs_fields_ok_def trs_header_lines_def separator_rule_def no_linebreak_def)

lemma trs_header_no_cs:
  "find_content_start_loop i (map (\<lambda>h. h @ [LF]) (trs_header_lines g) @ rest) =
   find_content_start_loop (i + 12) rest"
proof -
  have h: "i + 12 = Suc (Suc (Suc (Suc (Suc (Suc (Suc (Suc (Suc (Suc (Suc (Suc i)))))))))))"
    by simp
  show ?thesis
    unfolding h
    by (simp add: trs_header_lines_def separator_rule_def not_cs_by_head is_space_def)
qed

lemma trs_header_valid:
  "validate_header (map (\<lambda>h. h @ [LF]) (trs_header_lines g) @ rest) False self = self"
proof -
  define hs where "hs = map (\<lambda>h. h @ [LF]) (trs_header_lines g)"
  have len: "length hs = 12" by (simp add: hs_def trs_header_lines_def)
  have mem: "''File Type: IFS Foundation Translation File'' @ [LF] \<in> set hs"
    "''Type version: 10.00'' @ [LF] \<in> set hs"
    "''Module: '' @ trs_module g @ [LF] \<in> set hs"
    "''Layer: '' @ trs_layer g @ [LF] \<in> set hs"
    "''Main Type: '' @ trs_main_type g @ [LF] \<in> set hs"
    "''Sub Type: '' @ trs_sub_type g @ [LF] \<in> set hs"
    by (simp_all add: hs_def trs_header_lines_def)
  have s1: "str_in ''IFS Foundation Translation File''
              (''File Type: IFS Foundation Translation File'' @ [LF])"
    using str_in_middle[of "''IFS Foundation Translation File''" "''File Type: ''" "[LF]"] by simp
  have s2: "str_in ''Type version: 10.00'' (''Type version: 10.00'' @ [LF])"
    by (rule str_in_prefix)
  have s3: "str_in ''Module:'' (''Module: '' @ trs_module g @ [LF])"
    using str_in_prefix[of "''Module:''" "'' '' @ trs_module g @ [LF]"] by simp
  have s4: "str_in ''Layer:'' (''Layer: '' @ trs_layer g @ [LF])"
    using str_in_prefix[of "''Layer:''" "'' '' @ trs_layer g @ [LF]"] by simp
  have s5: "str_in ''Main Type:'' (''Main Type: '' @ trs_main_type g @ [LF])"
    using str_in_prefix[of "''Main Type:''" "'' '' @ trs_main_type g @ [LF]"] by simp
  have s6: "str_in ''Sub Type:'' (''Sub Type: '' @ trs_sub_type g @ [LF])"
    using str_in_prefix[of "''Sub Type:''" "'' '' @ trs_sub_type g @ [LF]"] by simp
  note facts = str_in_header_text[OF mem(1) s1, of rest] str_in_header_text[OF mem(2) s2, of rest]
    str_in_header_text[OF mem(3) s3, of rest] str_in_header_text[OF mem(4) s4, of rest]
    str_in_header_text[OF mem(5) s5, of rest] str_in_header_text[OF mem(6) s6, of rest]
  have "validate_header (hs @ rest) False self = self"
    using facts len by (simp add: validate_header_def Let_def)
  then show ?thesis by (simp add: hs_def)
qed

lemma trs_trees_wf:
  assumes "translations_ok tr" "tree_ok data"
  shows "\<forall>t \<in> set (map (trs_lu_tree tr) (map snd (logical_units data))). wf_block 2 t"
  using assms by (auto simp: tree_ok_def wf_trs_lu)

lemma trs_file_valid:
  assumes "trs_fields_ok g" "tree_ok data" "translations_ok tr" "path_suffix p = ''.trs''"
  shows "validate_file self p (snd (trs_generate_file g data tr p fs)) =
         ((True, [], []), \<lparr>errors = [], warnings = []\<rparr>)"
    and "fst (pairing_loop 0
               (drop 12 (readlines (trs_generate_header g @ trs_generate_content data tr)))
               12 [] v) = []"
proof -
  define ts where "ts = map (trs_lu_tree tr) (map snd (logical_units data))"
  define hs where "hs = map (\<lambda>h. h @ [LF]) (trs_header_lines g)"
  define v0 :: validator where "v0 = \<lparr>errors = [], warnings = []\<rparr>"
  have items: "trs_items data tr = concat (map (block_items 0) ts)"
    by (simp add: trs_items_def ts_def)
  have wf: "\<forall>t \<in> set ts. wf_block 2 t"
    unfolding ts_def using assms(3,2) by (rule trs_trees_wf)
  have ne: "ts \<noteq> []" using assms(2) by (simp add: ts_def tree_ok_def)
  have ok: "\<forall>item \<in> set (trs_items data tr). item_ok 2 (snd item)"
    unfolding items using wf blocks_items_ok[of ts 2 _ 0] by blast
  have len: "length hs = 12" by (simp add: hs_def trs_header_lines_def)
  have lines: "readlines (trs_generate_header g @ trs_generate_content data tr) =
               hs @ map read_back (trs_items data tr)"
    unfolding trs_header_concat trs_generate_content_items hs_def
    by (rule readlines_items) (use assms(1) ok in \<open>auto simp: trs_header_no_linebreak item_ok_no_linebreak\<close>)
  have start: "find_content_start (hs @ map read_back (trs_items data tr)) = Some 12"
    using content_start_items[OF ne wf, of 12]
    by (simp add: find_content_start_def hs_def trs_header_no_cs items)
  have hdr: "validate_header (hs @ map read_back (trs_items data tr)) False v0 = v0"
    unfolding hs_def by (rule trs_header_valid)
  have pair: "validate_cs_ce_pairing (map read_back (trs_items data tr)) 12 v0 = v0"
    unfolding items by (rule validate_cs_ce_pairing_blocks[OF wf])
  have ind: "validate_indentation (map read_back (trs_items data tr)) 12 v0 = v0"
    unfolding validate_indentation_def by (rule indentation_items[OF ok])
  have str: "validate_trs_structure (map read_back (trs_items data tr)) 12 v0 = v0"
    unfolding validate_trs_structure_def by (rule trs_structure_items[OF ok])
  have reset: "self\<lparr>errors := [], warnings := []\<rparr> = v0"
    by (cases self) (simp add: v0_def)
  show "validate_file self p (snd (trs_generate_file g data tr p fs)) =
         ((True, [], []), \<lparr>errors = [], warnings = []\<rparr>)"
    unfolding validate_file_def trs_generate_file_def
    by (simp add: Let_def assms(4) reset lines start hdr pair ind str len) (simp add: v0_def)
  show "fst (pairing_loop 0
               (drop 12 (readlines (trs_generate_header g @ trs_generate_content data tr)))
               12 [] v) = []"
    unfolding lines items by (simp add: len validate_cs_ce_pairing_blocks(2)[OF wf])
qed

subsection \<open>The scenarios\<close>

lemmas scenario_defs = scenario_tree_def scenario_lu_def scenario_view_def scenario_column_def

lemma scenario_tree_ok: "tree_ok scenario_tree"
  by (simp add: tree_ok_def lu_ok_def view_ok_def column_ok_def name_ok_def no_linebreak_def
      custom_columns_def scenario_defs)

lemma default_lng_fields_ok: "lng_fields_ok (LNGGenerator ''ESSPRO'' ''Cust'')"
  by (simp add: lng_fields_ok_def LNGGenerator_def LNGGenerator_init_def no_linebreak_def)

lemma default_trs_fields_ok: "trs_fields_ok (TRSGenerator ''ESSPRO'' ''Cust'' ''sv-SE'')"
  by (simp add: trs_fields_ok_def TRSGenerator_def TRSGenerator_init_def LANGUAGES_def no_linebreak_def)

lemma strip_line_LF: "trim_ok b \<Longrightarrow> strip (b @ [LF]) = b"
  using strip_read_back[of b 0] by (simp add: read_back_def)

lemma strip_line_tab_LF: "trim_ok b \<Longrightarrow> strip (TAB # b @ [LF]) = b"
  using strip_read_back[of b 1] by (simp add: read_back_def)

lemma readlines_scenario_C:
  "readlines scenario_C_text = [''CS:A^LU'' @ [LF], ''CS:B^LU'' @ [LF], ''CE:'' @ [LF]]"
  using readlines_lines[of "[''CS:A^LU'', ''CS:B^LU'', ''CE:'']"]
  by (simp add: scenario_C_text_def no_linebreak_def)

lemma readlines_CE: "readlines scenario_D_text = [''CE:'' @ [LF]]"
  using readlines_lines[of "[''CE:'']"] by (simp add: no_linebreak_def scenario_D_text_def)

lemma strip_CE: "strip (''CE:'' @ [LF]) = ''CE:''"
  by (rule strip_line_LF) (simp add: trim_ok_def is_space_def)

subsection \<open>The validator starts afresh\<close>

lemma validate_file_reset:
  "validate_file self file_path fs = validate_file \<lparr>errors = [], warnings = []\<rparr> file_path fs"
proof -
  have h: "self\<lparr>errors := [], warnings := []\<rparr> = \<lparr>errors = [], warnings = []\<rparr>"
    by (cases self) simp
  have h2: "\<lparr>errors = [], warnings = []\<rparr>\<lparr>errors := [], warnings := []\<rparr>
            = \<lparr>errors = [], warnings = []\<rparr>"
    by simp
  show ?thesis by (simp only: validate_file_def Let_def h h2)
qed

lemma validate_file_readable:
  assumes "fs (path_str file_path) = Readable text"
  shows "validate_file self file_path fs =
         validate_file self \<lparr>path_str = [], path_suffix = path_suffix file_path\<rparr>
           (\<lambda>p. Readable text)"
  by (simp only: validate_file_def assms path.simps file_entry.case)

subsection \<open>The pattern of the nesting check, and where the content starts\<close>

lemma re_match_cs_None_iff:
  assumes "startswith s ''CS:''"
  shows "re_match_cs s = None \<longleftrightarrow> s = ''CS:'' \<or> startswith s ''CS:^''"
proof -
  obtain r where s: "s = ''CS:'' @ r" using assms by (auto simp: startswith_def prefix_def)
  show ?thesis
    by (cases r) (auto simp: s re_match_cs_def startswith_def Let_def)
qed

lemma str_nat_2: "str_nat 2 = ''2''" and str_nat_4: "str_nat 4 = ''4''"
  by code_simp+

lemma str_nat_Suc_2: "str_nat (Suc (Suc 0)) = ''2''"
  and str_nat_Suc_4: "str_nat (Suc (Suc (Suc (Suc 0)))) = ''4''"
proof -
  have "Suc (Suc 0) = 2" "Suc (Suc (Suc (Suc 0))) = 4" by simp_all
  then show "str_nat (Suc (Suc 0)) = ''2''" "str_nat (Suc (Suc (Suc (Suc 0)))) = ''4''"
    by (simp_all only: str_nat_2 str_nat_4)
qed

lemma lng_readlines:
  assumes "lng_fields_ok g" "tree_ok data"
  shows "readlines (lng_generate_header g @ lng_generate_content data) =
         map (\<lambda>h. h @ [LF]) (lng_header_lines g) @ map read_back (lng_items data)"
  unfolding lng_header_concat lng_generate_content_items
  by (rule readlines_items)
     (use assms lng_items_ok[OF assms(2)] in \<open>auto simp: lng_header_no_linebreak item_ok_no_linebreak\<close>)

lemma lng_content_start:
  assumes "lng_fields_ok g" "tree_ok data"
  shows "find_content_start (readlines (lng_generate_header g @ lng_generate_content data)) = Some 10"
proof -
  define ts where "ts = map lng_lu_tree (map snd (logical_units data))"
  have wf: "\<forall>t \<in> set ts. wf_block 5 t" and ne: "ts \<noteq> []"
    using assms(2) by (auto simp: ts_def tree_ok_def wf_lng_lu)
  show ?thesis
    using content_start_items[OF ne wf, of 10]
    by (simp add: lng_readlines[OF assms] find_content_start_def lng_header_no_cs lng_items_def ts_def)
qed

lemma trs_readlines:
  assumes "trs_fields_ok g" "tree_ok data" "translations_ok tr"
  shows "readlines (trs_generate_header g @ trs_generate_content data tr) =
         map (\<lambda>h. h @ [LF]) (trs_header_lines g) @ map read_back (trs_items data tr)"
proof -
  have "\<forall>item \<in> set (trs_items data tr). item_ok 2 (snd item)"
    unfolding trs_items_def
    using trs_trees_wf[OF assms(3,2)]
      blocks_items_ok[of "map (trs_lu_tree tr) (map snd (logical_units data))" 2 _ 0]
    by blast
  then show ?thesis
    unfolding trs_header_concat trs_generate_content_items
    by (intro readlines_items)
       (use assms(1) in \<open>auto simp: trs_header_no_linebreak item_ok_no_linebreak\<close>)
qed

lemma trs_content_start:
  assumes "trs_fields_ok g" "tree_ok data" "translations_ok tr"
  shows "find_content_start (readlines (trs_generate_header g @ trs_generate_content data tr)) = Some 12"
proof -
  define ts where "ts = map (trs_lu_tree tr) (map snd (logical_units data))"
  have wf: "\<forall>t \<in> set ts. wf_block 2 t"
    unfolding ts_def using assms(3,2) by (rule trs_trees_wf)
  have ne: "ts \<noteq> []" using assms(2) by (simp add: ts_def tree_ok_def)
  show ?thesis
    using content_start_items[OF ne wf, of 12]
    by (simp add: trs_readlines[OF assms] find_content_start_def trs_header_no_cs trs_items_def ts_def)
qed

lemma scenario_translations_ok: "translations_ok scenario_translations"
  by (simp add: translations_ok_def scenario_translations_def no_linebreak_def)

subsection \<open>The structure checks, line by line\<close>

lemma lng_structure_loop_append:
  "lng_structure_loop i (xs @ ys) offset self =
   lng_structure_loop (i + length xs) ys offset (lng_structure_loop i xs offset self)"
  by (induction xs arbitrary: i self) (simp_all add: Let_def)

lemma trs_structure_loop_append:
  "trs_structure_loop i (xs @ ys) offset self =
   trs_structure_loop (i + length xs) ys offset (trs_structure_loop i xs offset self)"
  by (induction xs arbitrary: i self) (simp_all add: Let_def)

lemma cs_not_prompt:
  "startswith s ''CS:'' \<Longrightarrow> \<not> startswith s ''A:Prompt^''"
  "startswith s ''CS:'' \<Longrightarrow> \<not> startswith s ''P:''"
  by (auto simp: startswith_def prefix_def)

lemma lng_structure_loop_Cons:
  "lng_structure_loop i (line # rest) offset self =
   lng_structure_loop (i + 1) rest offset (lng_line_step (i + offset + 1) (strip line) self)"
  by (simp add: lng_line_step_def Let_def)

lemma trs_structure_loop_Cons:
  "trs_structure_loop i (line # rest) offset self =
   trs_structure_loop (i + 1) rest offset (trs_line_step (i + offset + 1) (strip line) self)"
  by (simp add: trs_line_step_def Let_def)

lemma prefix_add_error: "prefix (errors self) (errors (add_error m self))"
  by (simp add: add_error_def)

lemma lng_line_step_errors: "prefix (errors self) (errors (lng_line_step n s self))"
  by (auto simp: lng_line_step_def Let_def add_error_def prefix_def)

lemma trs_line_step_errors: "prefix (errors self) (errors (trs_line_step n s self))"
  by (auto simp: trs_line_step_def Let_def add_error_def prefix_def)

lemma lng_structure_loop_errors:
  "prefix (errors self) (errors (lng_structure_loop i ls offset self))"
proof (induction ls arbitrary: i self)
  case Nil
  then show ?case by simp
next
  case (Cons l ls)
  have "prefix (errors (lng_line_step (i + offset + 1) (strip l) self))
          (errors (lng_structure_loop (i + 1) ls offset (lng_line_step (i + offset + 1) (strip l) self)))"
    by (rule Cons.IH)
  from prefix_order.trans[OF lng_line_step_errors this] show ?case
    by (simp only: lng_structure_loop_Cons)
qed

lemma trs_structure_loop_errors:
  "prefix (errors self) (errors (trs_structure_loop i ls offset self))"
proof (induction ls arbitrary: i self)
  case Nil
  then show ?case by simp
next
  case (Cons l ls)
  have "prefix (errors (trs_line_step (i + offset + 1) (strip l) self))
          (errors (trs_structure_loop (i + 1) ls offset (trs_line_step (i + offset + 1) (strip l) self)))"
    by (rule Cons.IH)
  from prefix_order.trans[OF trs_line_step_errors this] show ?case
    by (simp only: trs_structure_loop_Cons)
qed

lemma lng_line_step_cs:
  assumes "startswith s ''CS:''"
  shows "lng_line_step n s self =
         (if length (split_on (CHR ''^'') s) \<noteq> 5
          then add_error (''Line '' @ str_nat n @ '': Invalid CS format. Expected 5 parts, got ''
                            @ str_nat (length (split_on (CHR ''^'') s))) self
          else self)"
  using assms cs_not_prompt(1)[OF assms] by (simp add: lng_line_step_def Let_def)

lemma trs_line_step_cs:
  assumes "startswith s ''CS:''"
  shows "trs_line_step n s self =
         (if length (split_on (CHR ''^'') s) \<noteq> 2
          then add_error (''Line '' @ str_nat n @ '': Invalid CS format for .trs. Expected 2 parts, got ''
                            @ str_nat (length (split_on (CHR ''^'') s))) self
          else self)"
  using assms cs_not_prompt[OF assms] by (simp add: trs_line_step_def Let_def)

lemma lng_cs_line_checked:
  assumes "startswith (strip line) ''CS:''"
  shows "validate_lng_structure (before @ line # after) offset self =
         lng_structure_loop (length before + 1) after offset
           (if length (split_on (CHR ''^'') (strip line)) \<noteq> 5
            then add_error (''Line '' @ str_nat (length before + offset + 1)
                              @ '': Invalid CS format. Expected 5 parts, got ''
                              @ str_nat (length (split_on (CHR ''^'') (strip line))))
                   (validate_lng_structure before offset self)
            else validate_lng_structure before offset self)"
  unfolding validate_lng_structure_def
  by (simp only: lng_structure_loop_append lng_structure_loop_Cons lng_line_step_cs[OF assms]
      add_0)

lemma trs_cs_line_checked:
  assumes "startswith (strip line) ''CS:''"
  shows "validate_trs_structure (before @ line # after) offset self =
         trs_structure_loop (length before + 1) after offset
           (if length (split_on (CHR ''^'') (strip line)) \<noteq> 2
            then add_error (''Line '' @ str_nat (length before + offset + 1)
                              @ '': Invalid CS format for .trs. Expected 2 parts, got ''
                              @ str_nat (length (split_on (CHR ''^'') (strip line))))
                   (validate_trs_structure before offset self)
            else validate_trs_structure before offset self)"
  unfolding validate_trs_structure_def
  by (simp only: trs_structure_loop_append trs_structure_loop_Cons trs_line_step_cs[OF assms]
      add_0)

lemma lng_cs_line_error_recorded:
  assumes "startswith (strip line) ''CS:''" "length (split_on (CHR ''^'') (strip line)) \<noteq> 5"
  shows "''Line '' @ str_nat (length before + offset + 1)
           @ '': Invalid CS format. Expected 5 parts, got ''
           @ str_nat (length (split_on (CHR ''^'') (strip line)))
         \<in> set (errors (validate_lng_structure (before @ line # after) offset self))"
proof -
  let ?m = "''Line '' @ str_nat (length before + offset + 1)
           @ '': Invalid CS format. Expected 5 parts, got ''
           @ str_nat (length (split_on (CHR ''^'') (strip line)))"
  let ?s = "add_error ?m (validate_lng_structure before offset self)"
  have "prefix (errors ?s) (errors (lng_structure_loop (length before + 1) after offset ?s))"
    by (rule lng_structure_loop_errors)
  moreover have "?m \<in> set (errors ?s)" by (simp add: add_error_def)
  ultimately have "?m \<in> set (errors (lng_structure_loop (length before + 1) after offset ?s))"
    using set_mono_prefix by blast
  with assms(2) show ?thesis
    by (simp add: lng_cs_line_checked[OF assms(1)])
qed

lemma trs_cs_line_error_recorded:
  assumes "startswith (strip line) ''CS:''" "length (split_on (CHR ''^'') (strip line)) \<noteq> 2"
  shows "''Line '' @ str_nat (length before + offset + 1)
           @ '': Invalid CS format for .trs. Expected 2 parts, got ''
           @ str_nat (length (split_on (CHR ''^'') (strip line)))
         \<in> set (errors (validate_trs_structure (before @ line # after) offset self))"
proof -
  let ?m = "''Line '' @ str_nat (length before + offset + 1)
           @ '': Invalid CS format for .trs. Expected 2 parts, got ''
           @ str_nat (length (split_on (CHR ''^'') (strip line)))"
  let ?s = "add_error ?m (validate_trs_structure before offset self)"
  have "prefix (errors ?s) (errors (trs_structure_loop (length before + 1) after offset ?s))"
    by (rule trs_structure_loop_errors)
  moreover have "?m \<in> set (errors ?s)" by (simp add: add_error_def)
  ultimately have "?m \<in> set (errors (trs_structure_loop (length before + 1) after offset ?s))"
    using set_mono_prefix by blast
  with assms(2) show ?thesis
    by (simp add: trs_cs_line_checked[OF assms(1)])
qed

subsection \<open>Field counts of the lines written\<close>

lemma cs_fields_lng:
  assumes "CHR ''^'' \<notin> set s" "sub \<in> {''Logical Unit'', ''View'', ''Column''}"
  shows "cs_fields 5 (''CS:'' @ s @ ''^LU^'' @ sub @ ''^N^N'')"
  using assms
  by (auto simp: cs_fields_def trim_ok_def is_space_def length_split_on filter_caret_name
      simp del: split_on.simps)

lemma cs_fields_trs:
  assumes "CHR ''^'' \<notin> set s"
  shows "cs_fields 2 (''CS:'' @ s @ ''^LU'')"
  using assms
  by (auto simp: cs_fields_def trim_ok_def is_space_def length_split_on filter_caret_name
      simp del: split_on.simps)

lemma cs_fields_prompt: "cs_fields k (''A:Prompt^'' @ s @ ''^'')"
  and cs_fields_P: "cs_fields k (''P:'' @ s @ ''^'')"
  and cs_fields_CE: "cs_fields k ''CE:''"
  by (simp_all add: cs_fields_def trim_ok_def is_space_def startswith_def)

lemma lng_column_fields:
  "CHR ''^'' \<notin> set (col_control c) \<Longrightarrow>
   \<forall>item \<in> set (block_items d (lng_column_tree c)). cs_fields 5 (snd item)"
  using cs_fields_lng[of "col_control c" "''Column''"] cs_fields_prompt[of 5 "col_label c"]
  by (simp add: lng_column_tree_def cs_fields_CE)

lemma lng_view_fields:
  assumes "CHR ''^'' \<notin> set (view_control v)"
    and "\<forall>c \<in> set (custom_columns v). CHR ''^'' \<notin> set (col_control c)"
  shows "\<forall>item \<in> set (block_items d (lng_view_tree v)). cs_fields 5 (snd item)"
proof -
  have "\<forall>c \<in> set (custom_columns v).
          \<forall>item \<in> set (block_items (Suc d) (lng_column_tree c)). cs_fields 5 (snd item)"
    using assms(2) lng_column_fields by blast
  then show ?thesis
    using assms(1) cs_fields_lng[of "view_control v" "''View''"]
    by (auto simp: lng_view_tree_def cs_fields_CE)
qed

lemma lng_lu_fields:
  assumes "CHR ''^'' \<notin> set (lu_name lu)"
    and "\<forall>v \<in> set (map snd (views lu)). CHR ''^'' \<notin> set (view_control v)
              \<and> (\<forall>c \<in> set (custom_columns v). CHR ''^'' \<notin> set (col_control c))"
  shows "\<forall>item \<in> set (block_items d (lng_lu_tree lu)). cs_fields 5 (snd item)"
proof -
  have "\<forall>v \<in> set (map snd (views lu)).
          \<forall>item \<in> set (block_items (Suc d) (lng_view_tree v)). cs_fields 5 (snd item)"
    using assms(2) lng_view_fields by blast
  then show ?thesis
    using assms(1) cs_fields_lng[of "lu_name lu" "''Logical Unit''"]
      cs_fields_prompt[of 5 "lu_label lu"]
    by (auto simp: lng_lu_tree_def cs_fields_CE)
qed

lemma lng_items_fields:
  assumes "identifiers_caret_free data"
  shows "\<forall>item \<in> set (lng_items data). cs_fields 5 (snd item)"
  using assms lng_lu_fields[where d = 0]
  by (fastforce simp: lng_items_def identifiers_caret_free_def)

lemma trs_column_fields:
  "CHR ''^'' \<notin> set (col_control c) \<Longrightarrow>
   \<forall>item \<in> set (block_items d (trs_column_tree tr c)). cs_fields 2 (snd item)"
  using cs_fields_trs[of "col_control c"] cs_fields_P[of 2 "col_label c"]
    cs_fields_prompt[of 2 "translations_get tr (col_label c)"]
  by (simp add: trs_column_tree_def cs_fields_CE)

lemma trs_view_fields:
  assumes "CHR ''^'' \<notin> set (view_control v)"
    and "\<forall>c \<in> set (custom_columns v). CHR ''^'' \<notin> set (col_control c)"
  shows "\<forall>item \<in> set (block_items d (trs_view_tree tr v)). cs_fields 2 (snd item)"
proof -
  have "\<forall>c \<in> set (custom_columns v).
          \<forall>item \<in> set (block_items (Suc d) (trs_column_tree tr c)). cs_fields 2 (snd item)"
    using assms(2) trs_column_fields by blast
  then show ?thesis
    using assms(1) cs_fields_trs[of "view_control v"]
    by (auto simp: trs_view_tree_def cs_fields_CE)
qed

lemma trs_lu_fields:
  assumes "CHR ''^'' \<notin> set (lu_name lu)"
    and "\<forall>v \<in> set (map snd (views lu)). CHR ''^'' \<notin> set (view_control v)
              \<and> (\<forall>c \<in> set (custom_columns v). CHR ''^'' \<notin> set (col_control c))"
  shows "\<forall>item \<in> set (block_items d (trs_lu_tree tr lu)). cs_fields 2 (snd item)"
proof -
  have "\<forall>v \<in> set (map snd (views lu)).
          \<forall>item \<in> set (block_items (Suc d) (trs_view_tree tr v)). cs_fields 2 (snd item)"
    using assms(2) trs_view_fields by blast
  then show ?thesis
    using assms(1) cs_fields_trs[of "lu_name lu"]
    by (auto simp: trs_lu_tree_def cs_fields_CE)
qed

lemma trs_items_fields:
  assumes "identifiers_caret_free data"
  shows "\<forall>item \<in> set (trs_items data tr). cs_fields 2 (snd item)"
  using assms trs_lu_fields[where tr = tr and d = 0]
  by (fastforce simp: trs_items_def identifiers_caret_free_def)

lemma emitted_cs_fields:
  assumes "\<forall>item \<in> set items. cs_fields k (snd item)" "l \<in> set (map emit items)"
    "startswith (strip l) ''CS:''"
  shows "length (split_on (CHR ''^'') (strip l)) = k"
proof -
  obtain n b where "(n, b) \<in> set items" "l = emit (n, b)" using assms(2) by auto
  moreover from this assms(1) have "cs_fields k b" by auto
  ultimately show ?thesis using assms(3) by (simp add: cs_fields_def strip_emit)
qed

lemma str_nat_11: "str_nat 11 = ''11''" and str_nat_3: "str_nat 3 = ''3''"
  by code_simp+

lemma scenario_identifiers_caret_free: "identifiers_caret_free scenario_tree"
  by (simp add: identifiers_caret_free_def custom_columns_def scenario_defs)

subsection \<open>Files that differ in translations only\<close>

lemma item_rel_refl: "item_rel x x"
  by (simp add: item_rel_def)

lemma items_rel_refl: "items_rel n xs xs"
  by (simp add: items_rel_def list_all2_refl item_rel_refl)

lemma items_rel_append:
  assumes "items_rel n xs ys" "items_rel n xs' ys'"
  shows "items_rel n (xs @ xs') (ys @ ys')"
proof -
  have len: "length xs = length ys"
    using assms(1) by (auto simp: items_rel_def dest: list_all2_lengthD)
  have "take (n - length xs) xs' = take (n - length xs) (take n xs')" by simp
  also have "\<dots> = take (n - length xs) (take n ys')" using assms(2) by (simp add: items_rel_def)
  also have "\<dots> = take (n - length xs) ys'" by simp
  finally have "take n (xs @ xs') = take n (ys @ ys')"
    using assms(1) len by (simp add: items_rel_def)
  then show ?thesis
    using assms by (simp add: items_rel_def list_all2_appendI)
qed

lemma items_rel_Cons: "items_rel n xs ys \<Longrightarrow> items_rel (Suc n) (x # xs) (x # ys)"
  by (simp add: items_rel_def item_rel_refl)

lemma items_rel_concat:
  assumes "\<And>z. z \<in> set zs \<Longrightarrow> items_rel n (f z) (g z)"
  shows "items_rel n (concat (map f zs)) (concat (map g zs))"
  using assms
proof (induction zs)
  case Nil
  then show ?case by (simp add: items_rel_refl)
next
  case (Cons z zs)
  then show ?case by (simp add: items_rel_append)
qed

lemma prompt_body_prompt: "no_linebreak s \<Longrightarrow> prompt_body (''A:Prompt^'' @ s @ ''^'')"
  using endswith_caret[of "''A:Prompt^''" s]
  by (simp add: prompt_body_def no_linebreak_def startswith_def)

lemma translations_get_upd_other:
  "l \<noteq> k \<Longrightarrow> translations_get (tr(k \<mapsto> t)) l = translations_get tr l"
  by (simp add: translations_get_def)

lemma translations_get_upd_same: "translations_get (tr(k \<mapsto> t)) k = t"
  and translations_get_absent: "tr k = None \<Longrightarrow> translations_get tr k = k"
  by (simp_all add: translations_get_def)

lemma trs_column_rel:
  assumes "tr k = None" "no_linebreak k" "no_linebreak t"
  shows "items_rel 2 (block_items d (trs_column_tree tr c))
                     (block_items d (trs_column_tree (tr(k \<mapsto> t)) c))"
proof (cases "col_label c = k")
  case True
  have "item_rel (Suc d, ''A:Prompt^'' @ k @ ''^'') (Suc d, ''A:Prompt^'' @ t @ ''^'')"
    using prompt_body_prompt[OF assms(2)] prompt_body_prompt[OF assms(3)]
    by (simp add: item_rel_def)
  then show ?thesis
    using True assms(1)
    by (simp add: items_rel_def trs_column_tree_def item_rel_refl translations_get_upd_same
        translations_get_absent)
next
  case False
  then have "trs_column_tree (tr(k \<mapsto> t)) c = trs_column_tree tr c"
    by (simp add: trs_column_tree_def translations_get_upd_other)
  then show ?thesis by (simp add: items_rel_refl)
qed

lemma trs_view_rel:
  assumes "tr k = None" "no_linebreak k" "no_linebreak t"
  shows "items_rel 3 (block_items d (trs_view_tree tr v))
                     (block_items d (trs_view_tree (tr(k \<mapsto> t)) v))"
proof -
  have "items_rel 2
          (concat (map (block_items (Suc d)) (map (trs_column_tree tr) (custom_columns v))))
          (concat (map (block_items (Suc d)) (map (trs_column_tree (tr(k \<mapsto> t))) (custom_columns v))))"
    unfolding map_map by (rule items_rel_concat) (simp add: trs_column_rel[where tr = tr and k = k, OF assms])
  then have "items_rel 2
          (concat (map (block_items (Suc d)) (map (trs_column_tree tr) (custom_columns v))) @ [(d, ''CE:'')])
          (concat (map (block_items (Suc d)) (map (trs_column_tree (tr(k \<mapsto> t))) (custom_columns v))) @ [(d, ''CE:'')])"
    by (rule items_rel_append) (rule items_rel_refl)
  then show ?thesis
    using items_rel_Cons[of 2] by (simp add: trs_view_tree_def numeral_3_eq_3 numeral_2_eq_2)
qed

lemma trs_lu_rel:
  assumes "tr k = None" "no_linebreak k" "no_linebreak t"
  shows "items_rel 4 (block_items d (trs_lu_tree tr lu))
                     (block_items d (trs_lu_tree (tr(k \<mapsto> t)) lu))"
proof -
  have "items_rel 3
          (concat (map (block_items (Suc d)) (map (trs_view_tree tr) (map snd (views lu)))))
          (concat (map (block_items (Suc d)) (map (trs_view_tree (tr(k \<mapsto> t))) (map snd (views lu)))))"
    unfolding map_map by (rule items_rel_concat) (simp add: trs_view_rel[where tr = tr and k = k, OF assms])
  then have "items_rel 3
          (concat (map (block_items (Suc d)) (map (trs_view_tree tr) (map snd (views lu)))) @ [(d, ''CE:'')])
          (concat (map (block_items (Suc d)) (map (trs_view_tree (tr(k \<mapsto> t))) (map snd (views lu)))) @ [(d, ''CE:'')])"
    by (rule items_rel_append) (rule items_rel_refl)
  from items_rel_Cons[OF this, of "(d, ''CS:'' @ lu_name lu @ ''^LU'')"]
  show ?thesis
    by (simp add: trs_lu_tree_def eval_nat_numeral)
qed

lemma trs_items_rel:
  assumes "tr k = None" "no_linebreak k" "no_linebreak t"
  shows "items_rel 4 (trs_items data tr) (trs_items data (tr(k \<mapsto> t)))"
  unfolding trs_items_def map_map
  by (rule items_rel_concat) (simp add: trs_lu_rel[where tr = tr and k = k, OF assms])

lemma readlines_chunk_append:
  "ends_crlf c \<Longrightarrow> readlines (c @ rest) = readlines c @ readlines rest"
proof -
  assume "ends_crlf c"
  then obtain b where c: "c = b @ CRLF" by (auto simp: ends_crlf_def)
  from readlines_append[of "b @ [CR]" rest] show ?thesis by (simp add: c)
qed

lemma readlines_chunks:
  "\<forall>c \<in> set cs. ends_crlf c \<Longrightarrow> readlines (concat cs) = concat (map readlines cs)"
  by (induction cs) (simp_all add: readlines_Nil readlines_chunk_append)

lemma ends_crlf_emit: "ends_crlf (emit item)"
  unfolding ends_crlf_def emit_def
  by (rule exI[of _ "replicate (fst item) TAB @ snd item"]) simp

lemma ends_crlf_nonempty: "ends_crlf c \<Longrightarrow> readlines c \<noteq> []"
  by (rule readlines_nonempty) (auto simp: ends_crlf_def)

lemma trim_ok_prompt_body:
  assumes "prompt_body b"
  shows "trim_ok b"
proof -
  obtain zs where "b = ''A:Prompt^'' @ zs"
    using assms by (auto simp: prompt_body_def startswith_def prefix_def)
  then have h: "b \<noteq> []" "hd b = CHR ''A''" by simp_all
  obtain ys where "b = ys @ ''^''"
    using assms by (auto simp: prompt_body_def endswith_def suffix_def)
  then have "last b = CHR ''^''" by simp
  with h show ?thesis by (simp add: trim_ok_def is_space_def)
qed

lemma readlines_emit_prompt:
  assumes "prompt_body b"
  shows "readlines (emit (n, b)) = [read_back (n, b)]"
proof -
  have "no_linebreak (replicate n TAB @ b)"
    using assms by (auto simp: prompt_body_def no_linebreak_def)
  from readlines_line[OF this, of "[]"] show ?thesis
    by (simp add: emit_def read_back_def readlines_Nil)
qed

lemma harmless_read_back:
  assumes "prompt_body b" "0 < n"
  shows "harmless (read_back (n, b))"
proof -
  have "strip (read_back (n, b)) = b"
    using trim_ok_prompt_body[OF assms(1)] by (rule strip_read_back)
  moreover have "\<not> startswith (read_back (n, b)) '' ''"
    using trim_ok_prompt_body[OF assms(1)] by (rule read_back_no_space_start)
  ultimately show ?thesis using assms(1) by (simp add: harmless_def prompt_body_def)
qed

lemma line_rel_refl: "list_all2 line_rel rs rs"
  by (simp add: list_all2_refl line_rel_def)

lemma item_rel_lines:
  assumes "item_rel x y"
  shows "list_all2 line_rel (readlines (emit x)) (readlines (emit y))"
proof (cases "x = y")
  case True
  then show ?thesis by (simp add: line_rel_refl)
next
  case False
  obtain n b where x: "x = (n, b)" by (cases x)
  obtain m c where y: "y = (m, c)" by (cases y)
  from False assms have "n = m" "0 < n" "prompt_body b" "prompt_body c"
    by (auto simp: item_rel_def x y)
  then show ?thesis
    by (simp add: x y readlines_emit_prompt line_rel_def harmless_read_back)
qed

lemma list_all2_concat_map:
  assumes "list_all2 (\<lambda>a b. list_all2 P (f a) (f b)) xs ys"
  shows "list_all2 P (concat (map f xs)) (concat (map f ys))"
  using assms by (induction rule: list_all2_induct) (simp_all add: list_all2_appendI)

lemma take_concat_map:
  assumes "\<forall>x \<in> set xs. f x \<noteq> []" "n \<le> m"
  shows "take n (concat (map f xs)) = take n (concat (map f (take m xs)))"
  using assms
proof (induction xs arbitrary: n m)
  case Nil
  then show ?case by simp
next
  case (Cons x xs)
  show ?case
  proof (cases m)
    case 0
    with Cons.prems show ?thesis by simp
  next
    case (Suc m')
    let ?k = "n - length (f x)"
    have "f x \<noteq> []" using Cons.prems(1) by simp
    then have "0 < length (f x)" by simp
    then have km: "?k \<le> m'" using Cons.prems(2) Suc by arith
    have "take ?k (concat (map f xs)) = take ?k (concat (map f (take m' xs)))"
      using Cons.prems(1) km by (intro Cons.IH) simp_all
    then show ?thesis by (simp add: Suc)
  qed
qed

lemma pairing_loop_Cons:
  "pairing_loop i (line # rest) offset stack self =
   pairing_loop (i + 1) rest offset
     (fst (pairing_step (i + offset + 1) (strip line) (stack, self)))
     (snd (pairing_step (i + offset + 1) (strip line) (stack, self)))"
  by (simp add: pairing_loop.simps(2) pairing_step_def Let_def split: option.splits)

lemma harmless_not_block:
  assumes "harmless r"
  shows "\<not> startswith (strip r) ''CS:''" "\<not> startswith (strip r) ''CE:''"
    "\<not> startswith (strip r) ''P:''" "strip r \<noteq> []"
proof -
  obtain zs where "strip r = ''A:Prompt^'' @ zs"
    using assms by (auto simp: harmless_def startswith_def prefix_def)
  then show "\<not> startswith (strip r) ''CS:''" "\<not> startswith (strip r) ''CE:''"
    "\<not> startswith (strip r) ''P:''" "strip r \<noteq> []"
    by (simp_all add: startswith_def)
qed

lemma pairing_step_harmless:
  "harmless r \<Longrightarrow> pairing_step n (strip r) state = state"
  by (cases state) (simp add: pairing_step_def harmless_not_block)

lemma find_content_start_rel:
  "list_all2 line_rel rs1 rs2 \<Longrightarrow>
   find_content_start_loop i rs1 = find_content_start_loop i rs2"
proof (induction arbitrary: i rule: list_all2_induct)
  case Nil
  then show ?case by simp
next
  case (Cons r1 rs1 r2 rs2)
  show ?case
  proof (cases "r1 = r2")
    case True
    then show ?thesis using Cons.IH by simp
  next
    case False
    with Cons.hyps(1) have "harmless r1" "harmless r2" by (simp_all add: line_rel_def)
    then show ?thesis using Cons.IH by (simp add: harmless_not_block)
  qed
qed

lemma pairing_loop_rel:
  "list_all2 line_rel rs1 rs2 \<Longrightarrow>
   pairing_loop i rs1 offset stack self = pairing_loop i rs2 offset stack self"
proof (induction arbitrary: i stack self rule: list_all2_induct)
  case Nil
  then show ?case by simp
next
  case (Cons r1 rs1 r2 rs2)
  show ?case
  proof (cases "r1 = r2")
    case True
    then show ?thesis by (simp only: pairing_loop_Cons Cons.IH)
  next
    case False
    with Cons.hyps(1) have "harmless r1" "harmless r2" by (simp_all add: line_rel_def)
    then show ?thesis by (simp only: pairing_loop_Cons pairing_step_harmless Cons.IH)
  qed
qed

lemma indentation_loop_Cons_harmless:
  assumes "harmless r"
  shows "indentation_loop i (r # rest) offset self = indentation_loop (i + 1) rest offset self"
proof -
  have "strip r \<noteq> []" using assms by (rule harmless_not_block(4))
  moreover have "\<not> startswith r '' ''" using assms by (simp add: harmless_def)
  ultimately show ?thesis by (simp add: Let_def)
qed

lemma indentation_loop_rel:
  "list_all2 line_rel rs1 rs2 \<Longrightarrow>
   indentation_loop i rs1 offset self = indentation_loop i rs2 offset self"
proof (induction arbitrary: i self rule: list_all2_induct)
  case Nil
  then show ?case by simp
next
  case (Cons r1 rs1 r2 rs2)
  show ?case
  proof (cases "r1 = r2")
    case True
    then show ?thesis using Cons.IH by (simp add: Let_def)
  next
    case False
    with Cons.hyps(1) have "harmless r1" "harmless r2" by (simp_all add: line_rel_def)
    then show ?thesis by (simp only: indentation_loop_Cons_harmless Cons.IH)
  qed
qed

lemma lng_line_step_harmless: "harmless r \<Longrightarrow> lng_line_step n (strip r) self = self"
  using harmless_not_block(1)[of r] by (simp add: lng_line_step_def harmless_def Let_def)

lemma trs_line_step_harmless: "harmless r \<Longrightarrow> trs_line_step n (strip r) self = self"
  using harmless_not_block(1,3)[of r] by (simp add: trs_line_step_def harmless_def Let_def)

lemma lng_structure_loop_rel:
  "list_all2 line_rel rs1 rs2 \<Longrightarrow>
   lng_structure_loop i rs1 offset self = lng_structure_loop i rs2 offset self"
proof (induction arbitrary: i self rule: list_all2_induct)
  case Nil
  then show ?case by simp
next
  case (Cons r1 rs1 r2 rs2)
  show ?case
  proof (cases "r1 = r2")
    case True
    then show ?thesis by (simp only: lng_structure_loop_Cons Cons.IH)
  next
    case False
    with Cons.hyps(1) have "harmless r1" "harmless r2" by (simp_all add: line_rel_def)
    then show ?thesis by (simp only: lng_structure_loop_Cons lng_line_step_harmless Cons.IH)
  qed
qed

lemma trs_structure_loop_rel:
  "list_all2 line_rel rs1 rs2 \<Longrightarrow>
   trs_structure_loop i rs1 offset self = trs_structure_loop i rs2 offset self"
proof (induction arbitrary: i self rule: list_all2_induct)
  case Nil
  then show ?case by simp
next
  case (Cons r1 rs1 r2 rs2)
  show ?case
  proof (cases "r1 = r2")
    case True
    then show ?thesis by (simp only: trs_structure_loop_Cons Cons.IH)
  next
    case False
    with Cons.hyps(1) have "harmless r1" "harmless r2" by (simp_all add: line_rel_def)
    then show ?thesis by (simp only: trs_structure_loop_Cons trs_line_step_harmless Cons.IH)
  qed
qed

lemma validate_header_rel:
  assumes "length rs1 = length rs2" "take 15 rs1 = take 15 rs2"
  shows "validate_header rs1 is_lng self = validate_header rs2 is_lng self"
  by (simp only: validate_header_def assms)

lemma validated_rel:
  assumes "list_all2 line_rel rs1 rs2" "take 15 rs1 = take 15 rs2"
    and that: "readlines t1 = rs1" "readlines t2 = rs2"
  shows "validate_file self p (fs(path_str p := Readable t1)) =
         validate_file self p (fs(path_str p := Readable t2))"
proof -
  have len: "length rs1 = length rs2" using assms(1) by (rule list_all2_lengthD)
  have hdr: "\<And>b v. validate_header rs1 b v = validate_header rs2 b v"
    using len assms(2) by (rule validate_header_rel)
  have start: "find_content_start rs1 = find_content_start rs2"
    unfolding find_content_start_def using assms(1) by (rule find_content_start_rel)
  have drop: "\<And>k. list_all2 line_rel (drop k rs1) (drop k rs2)"
    using assms(1) by (rule list_all2_dropI)
  have pair: "\<And>k v. validate_cs_ce_pairing (drop k rs1) k v = validate_cs_ce_pairing (drop k rs2) k v"
    unfolding validate_cs_ce_pairing_def by (simp only: pairing_loop_rel[OF drop])
  have ind: "\<And>k v. validate_indentation (drop k rs1) k v = validate_indentation (drop k rs2) k v"
    unfolding validate_indentation_def by (rule indentation_loop_rel[OF drop])
  have lng: "\<And>k v. validate_lng_structure (drop k rs1) k v = validate_lng_structure (drop k rs2) k v"
    unfolding validate_lng_structure_def by (rule lng_structure_loop_rel[OF drop])
  have trs: "\<And>k v. validate_trs_structure (drop k rs1) k v = validate_trs_structure (drop k rs2) k v"
    unfolding validate_trs_structure_def by (rule trs_structure_loop_rel[OF drop])
  show ?thesis
    unfolding validate_file_def
    by (simp only: fun_upd_same file_entry.case that Let_def hdr start pair ind lng trs)
qed

lemma trs_file_chunks:
  "trs_generate_header g @ trs_generate_content data tr = concat (trs_chunks g data tr)"
  by (simp add: trs_chunks_def trs_header_concat trs_generate_content_items)

lemma trs_chunks_crlf: "\<forall>c \<in> set (trs_chunks g data tr). ends_crlf c"
proof
  fix c
  assume "c \<in> set (trs_chunks g data tr)"
  then consider h where "c = h @ CRLF" | item where "c = emit item"
    by (auto simp: trs_chunks_def)
  then show "ends_crlf c"
  proof cases
    case 1
    then show ?thesis by (auto simp: ends_crlf_def)
  next
    case 2
    then show ?thesis by (simp add: ends_crlf_emit)
  qed
qed

lemma trs_readlines_chunks:
  "readlines (trs_generate_header g @ trs_generate_content data tr) =
   concat (map readlines (trs_chunks g data tr))"
  unfolding trs_file_chunks by (rule readlines_chunks) (rule trs_chunks_crlf)

lemma trs_chunks_rel:
  assumes "list_all2 item_rel (trs_items data tr1) (trs_items data tr2)"
  shows "list_all2 (\<lambda>a b. list_all2 line_rel (readlines a) (readlines b))
           (trs_chunks g data tr1) (trs_chunks g data tr2)"
proof -
  have "list_all2 (\<lambda>a b. list_all2 line_rel (readlines a) (readlines b))
          (map (\<lambda>h. h @ CRLF) (trs_header_lines g)) (map (\<lambda>h. h @ CRLF) (trs_header_lines g))"
    by (rule list_all2_refl) (rule line_rel_refl)
  moreover have "list_all2 (\<lambda>a b. list_all2 line_rel (readlines a) (readlines b))
          (map emit (trs_items data tr1)) (map emit (trs_items data tr2))"
    unfolding list_all2_map1 list_all2_map2
    using assms by (rule list_all2_mono) (rule item_rel_lines)
  ultimately show ?thesis
    unfolding trs_chunks_def by (rule list_all2_appendI)
qed

lemma trs_chunks_take:
  assumes "take 4 (trs_items data tr1) = take 4 (trs_items data tr2)"
  shows "take 15 (trs_chunks g data tr1) = take 15 (trs_chunks g data tr2)"
proof -
  have "take 3 (take 4 (trs_items data tr1)) = take 3 (take 4 (trs_items data tr2))"
    using assms by simp
  then have "take 3 (trs_items data tr1) = take 3 (trs_items data tr2)" by simp
  then show ?thesis
    by (simp add: trs_chunks_def trs_header_lines_def take_map)
qed

lemma trs_lines_rel:
  assumes "items_rel 4 (trs_items data tr1) (trs_items data tr2)"
  shows "list_all2 line_rel
           (readlines (trs_generate_header g @ trs_generate_content data tr1))
           (readlines (trs_generate_header g @ trs_generate_content data tr2))"
    and "take 15 (readlines (trs_generate_header g @ trs_generate_content data tr1)) =
         take 15 (readlines (trs_generate_header g @ trs_generate_content data tr2))"
proof -
  have rel: "list_all2 item_rel (trs_items data tr1) (trs_items data tr2)"
    and tk: "take 4 (trs_items data tr1) = take 4 (trs_items data tr2)"
    using assms by (simp_all add: items_rel_def)
  show "list_all2 line_rel
           (readlines (trs_generate_header g @ trs_generate_content data tr1))
           (readlines (trs_generate_header g @ trs_generate_content data tr2))"
    unfolding trs_readlines_chunks
    by (rule list_all2_concat_map) (rule trs_chunks_rel[OF rel])
  have ne: "\<And>tr. \<forall>c \<in> set (trs_chunks g data tr). readlines c \<noteq> []"
    using trs_chunks_crlf ends_crlf_nonempty by blast
  have "take 15 (concat (map readlines (trs_chunks g data tr1))) =
        take 15 (concat (map readlines (take 15 (trs_chunks g data tr1))))"
    by (rule take_concat_map[OF ne]) simp
  also have "\<dots> = take 15 (concat (map readlines (take 15 (trs_chunks g data tr2))))"
    by (simp only: trs_chunks_take[OF tk])
  also have "\<dots> = take 15 (concat (map readlines (trs_chunks g data tr2)))"
    by (rule take_concat_map[OF ne, symmetric]) simp
  finally show "take 15 (readlines (trs_generate_header g @ trs_generate_content data tr1)) =
         take 15 (readlines (trs_generate_header g @ trs_generate_content data tr2))"
    by (simp only: trs_readlines_chunks)
qed

lemma trs_fallback_validates:
  assumes "tr k = None" "no_linebreak k" "no_linebreak t"
  shows "validate_file self p (snd (trs_generate_file g data tr p fs)) =
         validate_file self p (snd (trs_generate_file g data (tr(k \<mapsto> t)) p fs))"
proof -
  have rel: "items_rel 4 (trs_items data tr) (trs_items data (tr(k \<mapsto> t)))"
    using assms by (rule trs_items_rel)
  have "validate_file self p
          (fs(path_str p := Readable (trs_generate_header g @ trs_generate_content data tr))) =
        validate_file self p
          (fs(path_str p := Readable (trs_generate_header g
                                       @ trs_generate_content data (tr(k \<mapsto> t)))))"
    by (rule validated_rel[OF trs_lines_rel[OF rel] refl refl])
  then show ?thesis by (simp add: trs_generate_file_def Let_def)
qed

subsection \<open>Field counts of the lines read back\<close>

lemma no_linebreak_CE: "no_linebreak ''CE:''"
  by (simp add: no_linebreak_def)

lemma lng_column_no_linebreak:
  "no_linebreak (col_control c) \<Longrightarrow> no_linebreak (col_label c) \<Longrightarrow>
   \<forall>item \<in> set (block_items d (lng_column_tree c)). no_linebreak (snd item)"
  by (simp add: lng_column_tree_def no_linebreak_def)

lemma lng_view_no_linebreak:
  assumes "no_linebreak (view_control v)"
    and "\<forall>c \<in> set (custom_columns v). no_linebreak (col_control c) \<and> no_linebreak (col_label c)"
  shows "\<forall>item \<in> set (block_items d (lng_view_tree v)). no_linebreak (snd item)"
proof -
  have "\<forall>c \<in> set (custom_columns v).
          \<forall>item \<in> set (block_items (Suc d) (lng_column_tree c)). no_linebreak (snd item)"
    using assms(2) lng_column_no_linebreak by blast
  moreover have "no_linebreak (''CS:'' @ view_control v @ ''^LU^View^N^N'')"
    using assms(1) by (simp add: no_linebreak_def)
  ultimately show ?thesis
    by (auto simp: lng_view_tree_def no_linebreak_CE)
qed

lemma lng_lu_no_linebreak:
  assumes "no_linebreak (lu_name lu)" "no_linebreak (lu_label lu)"
    and "\<forall>v \<in> set (map snd (views lu)). no_linebreak (view_control v)
              \<and> (\<forall>c \<in> set (custom_columns v).
                    no_linebreak (col_control c) \<and> no_linebreak (col_label c))"
  shows "\<forall>item \<in> set (block_items d (lng_lu_tree lu)). no_linebreak (snd item)"
proof -
  have "\<forall>v \<in> set (map snd (views lu)).
          \<forall>item \<in> set (block_items (Suc d) (lng_view_tree v)). no_linebreak (snd item)"
    using assms(3) lng_view_no_linebreak by blast
  moreover have "no_linebreak (''CS:'' @ lu_name lu @ ''^LU^Logical Unit^N^N'')"
    "no_linebreak (''A:Prompt^'' @ lu_label lu @ ''^'')"
    using assms(1,2) by (simp_all add: no_linebreak_def)
  ultimately show ?thesis
    by (auto simp: lng_lu_tree_def no_linebreak_CE)
qed

lemma lng_items_no_linebreak:
  assumes "tree_linebreak_free data"
  shows "\<forall>item \<in> set (lng_items data). no_linebreak (snd item)"
  using assms lng_lu_no_linebreak[where d = 0]
  by (fastforce simp: lng_items_def tree_linebreak_free_def)

lemma trs_column_no_linebreak:
  assumes "translations_ok tr" "no_linebreak (col_control c)" "no_linebreak (col_label c)"
  shows "\<forall>item \<in> set (block_items d (trs_column_tree tr c)). no_linebreak (snd item)"
proof -
  have "no_linebreak (translations_get tr (col_label c))"
    using assms(1,3) by (rule translations_get_no_linebreak)
  then show ?thesis
    using assms(2,3) by (simp add: trs_column_tree_def no_linebreak_def)
qed

lemma trs_view_no_linebreak:
  assumes "translations_ok tr" "no_linebreak (view_control v)"
    and "\<forall>c \<in> set (custom_columns v). no_linebreak (col_control c) \<and> no_linebreak (col_label c)"
  shows "\<forall>item \<in> set (block_items d (trs_view_tree tr v)). no_linebreak (snd item)"
proof -
  have "\<forall>c \<in> set (custom_columns v).
          \<forall>item \<in> set (block_items (Suc d) (trs_column_tree tr c)). no_linebreak (snd item)"
    using assms(1,3) trs_column_no_linebreak by blast
  moreover have "no_linebreak (''CS:'' @ view_control v @ ''^LU'')"
    using assms(2) by (simp add: no_linebreak_def)
  ultimately show ?thesis
    by (auto simp: trs_view_tree_def no_linebreak_CE)
qed

lemma trs_lu_no_linebreak:
  assumes "translations_ok tr" "no_linebreak (lu_name lu)"
    and "\<forall>v \<in> set (map snd (views lu)). no_linebreak (view_control v)
              \<and> (\<forall>c \<in> set (custom_columns v).
                    no_linebreak (col_control c) \<and> no_linebreak (col_label c))"
  shows "\<forall>item \<in> set (block_items d (trs_lu_tree tr lu)). no_linebreak (snd item)"
proof -
  have "\<forall>v \<in> set (map snd (views lu)).
          \<forall>item \<in> set (block_items (Suc d) (trs_view_tree tr v)). no_linebreak (snd item)"
    using assms(1,3) trs_view_no_linebreak by blast
  moreover have "no_linebreak (''CS:'' @ lu_name lu @ ''^LU'')"
    using assms(2) by (simp add: no_linebreak_def)
  ultimately show ?thesis
    by (auto simp: trs_lu_tree_def no_linebreak_CE)
qed

lemma trs_items_no_linebreak:
  assumes "tree_linebreak_free data" "translations_ok tr"
  shows "\<forall>item \<in> set (trs_items data tr). no_linebreak (snd item)"
  using assms(1) trs_lu_no_linebreak[where d = 0 and tr = tr, OF assms(2)]
  by (fastforce simp: trs_items_def tree_linebreak_free_def)

lemma read_cs_fields:
  assumes "\<forall>item \<in> set items. cs_fields k (snd item)" "r \<in> set (map read_back items)"
    "startswith (strip r) ''CS:''"
  shows "length (split_on (CHR ''^'') (strip r)) = k"
proof -
  obtain n b where "(n, b) \<in> set items" "r = read_back (n, b)" using assms(2) by auto
  moreover from this assms(1) have "cs_fields k b" by auto
  ultimately show ?thesis using assms(3) by (simp add: cs_fields_def strip_read_back)
qed

lemma lng_header_line_not_cs:
  "h \<in> set (lng_header_lines g) \<Longrightarrow> \<not> startswith (strip (h @ [LF])) ''CS:''"
  by (auto simp: lng_header_lines_def separator_rule_def not_cs_by_head is_space_def)

lemma trs_header_line_not_cs:
  "h \<in> set (trs_header_lines g) \<Longrightarrow> \<not> startswith (strip (h @ [LF])) ''CS:''"
  by (auto simp: trs_header_lines_def separator_rule_def not_cs_by_head is_space_def)

lemma lng_content_read_cs_fields:
  assumes "identifiers_caret_free data" "tree_linebreak_free data"
    "r \<in> set (readlines (lng_generate_content data))" "startswith (strip r) ''CS:''"
  shows "length (split_on (CHR ''^'') (strip r)) = 5"
proof -
  have nl: "\<forall>item \<in> set (lng_items data). no_linebreak (snd item)"
    using assms(2) by (rule lng_items_no_linebreak)
  have "readlines (concat (map emit (lng_items data))) = map read_back (lng_items data)"
    using readlines_items[of "[]" "lng_items data"] nl by simp
  then have "r \<in> set (map read_back (lng_items data))"
    using assms(3) by (simp only: lng_generate_content_items)
  with lng_items_fields[OF assms(1)] show ?thesis using assms(4) by (rule read_cs_fields)
qed

lemma trs_content_read_cs_fields:
  assumes "identifiers_caret_free data" "tree_linebreak_free data" "translations_ok tr"
    "r \<in> set (readlines (trs_generate_content data tr))" "startswith (strip r) ''CS:''"
  shows "length (split_on (CHR ''^'') (strip r)) = 2"
proof -
  have nl: "\<forall>item \<in> set (trs_items data tr). no_linebreak (snd item)"
    using assms(2,3) by (rule trs_items_no_linebreak)
  have "readlines (concat (map emit (trs_items data tr))) = map read_back (trs_items data tr)"
    using readlines_items[of "[]" "trs_items data tr"] nl by simp
  then have "r \<in> set (map read_back (trs_items data tr))"
    using assms(4) by (simp only: trs_generate_content_items)
  with trs_items_fields[OF assms(1)] show ?thesis using assms(5) by (rule read_cs_fields)
qed

lemma lng_file_read_cs_fields:
  assumes "lng_fields_ok g" "identifiers_caret_free data" "tree_linebreak_free data"
    "r \<in> set (readlines (lng_generate_header g @ lng_generate_content data))"
    "startswith (strip r) ''CS:''"
  shows "length (split_on (CHR ''^'') (strip r)) = 5"
proof -
  have "readlines (lng_generate_header g @ lng_generate_content data) =
        map (\<lambda>h. h @ [LF]) (lng_header_lines g) @ map read_back (lng_items data)"
    unfolding lng_header_concat lng_generate_content_items
    using lng_header_no_linebreak[OF assms(1)] lng_items_no_linebreak[OF assms(3)]
    by (rule readlines_items)
  with assms(4) have "r \<in> (\<lambda>h. h @ [LF]) ` set (lng_header_lines g)
      \<or> r \<in> set (map read_back (lng_items data))"
    by auto
  with assms(5) lng_header_line_not_cs have "r \<in> set (map read_back (lng_items data))"
    by blast
  with lng_items_fields[OF assms(2)] show ?thesis using assms(5) by (rule read_cs_fields)
qed

lemma trs_file_read_cs_fields:
  assumes "trs_fields_ok g" "identifiers_caret_free data" "tree_linebreak_free data"
    "translations_ok tr"
    "r \<in> set (readlines (trs_generate_header g @ trs_generate_content data tr))"
    "startswith (strip r) ''CS:''"
  shows "length (split_on (CHR ''^'') (strip r)) = 2"
proof -
  have "readlines (trs_generate_header g @ trs_generate_content data tr) =
        map (\<lambda>h. h @ [LF]) (trs_header_lines g) @ map read_back (trs_items data tr)"
    unfolding trs_header_concat trs_generate_content_items
    using trs_header_no_linebreak[OF assms(1)] trs_items_no_linebreak[OF assms(3,4)]
    by (rule readlines_items)
  with assms(5) have "r \<in> (\<lambda>h. h @ [LF]) ` set (trs_header_lines g)
      \<or> r \<in> set (map read_back (trs_items data tr))"
    by auto
  with assms(6) trs_header_line_not_cs have "r \<in> set (map read_back (trs_items data tr))"
    by blast
  with trs_items_fields[OF assms(2)] show ?thesis using assms(6) by (rule read_cs_fields)
qed

lemma scenario_tree_linebreak_free: "tree_linebreak_free scenario_tree"
  by (simp add: tree_linebreak_free_def scenario_defs custom_columns_def no_linebreak_def)

lemma scenario_file_lines:
  "''CS:TestLU^LU^Logical Unit^N^N'' @ [LF]
     \<in> set (readlines (lng_generate_header (LNGGenerator ''ESSPRO'' ''Cust'')
                        @ lng_generate_content scenario_tree))"
  "''CS:TestLU^LU'' @ [LF]
     \<in> set (readlines (trs_generate_header (TRSGenerator ''ESSPRO'' ''Cust'' ''sv-SE'')
                        @ trs_generate_content scenario_tree scenario_translations))"
  by code_simp+

lemma scenario_read_lines:
  "''CS:TestLU^LU^Logical Unit^N^N'' @ [LF] \<in> set (readlines (lng_generate_content scenario_tree))"
  "''CS:TestLU^LU'' @ [LF]
     \<in> set (readlines (trs_generate_content scenario_tree scenario_translations))"
  by code_simp+

section \<open>The claims\<close>

text \<open>
  Claim C1, as stated: every filtered tree with a logical unit, whose names and labels hold
  no caret and no line break, would validate after encoding, for any translation map. A
  logical unit with the empty name gives a definition file with two errors, and a
  translation that holds a line feed gives a translation file with one.
\<close>

theorem roundtrip_counterexample:
  "fst (validate_file \<lparr>errors = [], warnings = []\<rparr> (lng_path ''out.lng'')
         (snd (lng_generate_file (LNGGenerator ''ESSPRO'' ''Cust'') unnamed_tree
                (lng_path ''out.lng'') no_file)))
     = (False, [''Line 11: Malformed CS line: CS:^LU^Logical Unit^N^N'',
                ''Line 18: CE without matching CS''], [])
   \<and> fst (validate_file \<lparr>errors = [], warnings = []\<rparr> (trs_path ''out.trs'')
         (snd (trs_generate_file (TRSGenerator ''ESSPRO'' ''Cust'' ''sv-SE'') scenario_tree
                broken_translations (trs_path ''out.trs'') no_file)))
     = (False, [''Line 17: A:Prompt should end with ^''], [])"
  by code_simp

text \<open>
  Claim C1, amended. Let the header fields hold no line break, let the tree have a logical
  unit, let every logical unit name, view identifier and custom column identifier be
  non-empty and free of carets and line breaks, let the labels that are emitted and every
  translation in the map be free of line breaks, and let the files be written to paths
  with the suffixes \<open>.lng\<close> and \<open>.trs\<close>. Then \<open>validate_file\<close> returns
  \<open>(True, [], [])\<close> for both written files; the content starts after the header, at line
  index 10 and 12, and the nesting scan from there ends with the empty stack.
\<close>

theorem roundtrip_sound:
  assumes "lng_fields_ok g" and "trs_fields_ok t" and "tree_ok data"
    and "translations_ok translations"
    and "path_suffix lng_file = ''.lng''" and "path_suffix trs_file = ''.trs''"
  shows "fst (validate_file self lng_file (snd (lng_generate_file g data lng_file fs)))
           = (True, [], [])
       \<and> fst (validate_file self trs_file
                (snd (trs_generate_file t data translations trs_file fs)))
           = (True, [], [])
       \<and> find_content_start (readlines (lng_generate_header g @ lng_generate_content data))
           = Some 10
       \<and> fst (pairing_loop 0
                (drop 10 (readlines (lng_generate_header g @ lng_generate_content data)))
                10 [] self) = []
       \<and> find_content_start
             (readlines (trs_generate_header t @ trs_generate_content data translations))
           = Some 12
       \<and> fst (pairing_loop 0
                (drop 12 (readlines (trs_generate_header t
                                      @ trs_generate_content data translations)))
                12 [] self) = []"
  using lng_file_valid(1)[OF assms(1,3,5), of self fs]
    lng_file_valid(2)[OF assms(1,3,5), of self]
    trs_file_valid(1)[OF assms(2,3,4,6), of self fs]
    trs_file_valid(2)[OF assms(2,3,4,6), of self]
    lng_content_start[OF assms(1,3)] trs_content_start[OF assms(2,3,4)]
  by simp

text \<open>Claim C1, amended, at the tree and the translation map of the scenarios.\<close>

theorem roundtrip_sound_witness:
  "lng_fields_ok (LNGGenerator ''ESSPRO'' ''Cust'')
   \<and> trs_fields_ok (TRSGenerator ''ESSPRO'' ''Cust'' ''sv-SE'')
   \<and> tree_ok scenario_tree
   \<and> translations_ok scenario_translations
   \<and> path_suffix (lng_path ''out.lng'') = ''.lng''
   \<and> path_suffix (trs_path ''out.trs'') = ''.trs''
   \<and> fst (validate_file \<lparr>errors = [''stale''], warnings = []\<rparr> (lng_path ''out.lng'')
            (snd (lng_generate_file (LNGGenerator ''ESSPRO'' ''Cust'') scenario_tree
                   (lng_path ''out.lng'') no_file)))
       = (True, [], [])
   \<and> fst (validate_file \<lparr>errors = [''stale''], warnings = []\<rparr> (trs_path ''out.trs'')
            (snd (trs_generate_file (TRSGenerator ''ESSPRO'' ''Cust'' ''sv-SE'') scenario_tree
                   scenario_translations (trs_path ''out.trs'') no_file)))
       = (True, [], [])"
proof -
  have a: "path_suffix (lng_path ''out.lng'') = ''.lng''"
    and b: "path_suffix (trs_path ''out.trs'') = ''.trs''"
    by (simp_all add: lng_path_def trs_path_def)
  from roundtrip_sound[OF default_lng_fields_ok default_trs_fields_ok scenario_tree_ok
      scenario_translations_ok a b, of "\<lparr>errors = [''stale''], warnings = []\<rparr>" no_file]
    default_lng_fields_ok default_trs_fields_ok scenario_tree_ok scenario_translations_ok a b
  show ?thesis by blast
qed

text \<open>
  Claim C2 (Scenario A). For the tree with the one logical unit \<open>TestLU\<close>, its one view
  \<open>TEST_VIEW\<close> and its one custom column \<open>C_TEST_FIELD\<close>, \<open>generate_content\<close> of the
  definition kind returns exactly the eight lines of the scenario, \<open>generate_file\<close> writes
  them after the header, and \<open>validate_file\<close> accepts the written file with no error and
  no warning.
\<close>

theorem scenario_A:
  "lng_generate_content scenario_tree =
     ''CS:TestLU^LU^Logical Unit^N^N'' @ CRLF @
     [TAB] @ ''A:Prompt^Test Logical Unit^'' @ CRLF @
     [TAB] @ ''CS:TEST_VIEW^LU^View^N^N'' @ CRLF @
     [TAB, TAB] @ ''CS:C_TEST_FIELD^LU^Column^N^N'' @ CRLF @
     [TAB, TAB, TAB] @ ''A:Prompt^Test Field^'' @ CRLF @
     [TAB, TAB] @ ''CE:'' @ CRLF @
     [TAB] @ ''CE:'' @ CRLF @
     ''CE:'' @ CRLF
   \<and> snd (lng_generate_file (LNGGenerator ''ESSPRO'' ''Cust'') scenario_tree (lng_path out) fs) out =
       Readable (lng_generate_header (LNGGenerator ''ESSPRO'' ''Cust'')
                 @ lng_generate_content scenario_tree)
   \<and> fst (validate_file self (lng_path out)
            (snd (lng_generate_file (LNGGenerator ''ESSPRO'' ''Cust'') scenario_tree (lng_path out) fs)))
       = (True, [], [])"
proof (intro conjI)
  show "lng_generate_content scenario_tree =
     ''CS:TestLU^LU^Logical Unit^N^N'' @ CRLF @
     [TAB] @ ''A:Prompt^Test Logical Unit^'' @ CRLF @
     [TAB] @ ''CS:TEST_VIEW^LU^View^N^N'' @ CRLF @
     [TAB, TAB] @ ''CS:C_TEST_FIELD^LU^Column^N^N'' @ CRLF @
     [TAB, TAB, TAB] @ ''A:Prompt^Test Field^'' @ CRLF @
     [TAB, TAB] @ ''CE:'' @ CRLF @
     [TAB] @ ''CE:'' @ CRLF @
     ''CE:'' @ CRLF"
    by (simp add: scenario_defs lng_generate_content_def lng_content_lines_def
        lng_generate_lu_block_def lng_generate_view_block_def lng_generate_column_block_def)
  show "snd (lng_generate_file (LNGGenerator ''ESSPRO'' ''Cust'') scenario_tree (lng_path out) fs) out =
       Readable (lng_generate_header (LNGGenerator ''ESSPRO'' ''Cust'')
                 @ lng_generate_content scenario_tree)"
    by (simp add: lng_generate_file_def lng_path_def Let_def)
  show "fst (validate_file self (lng_path out)
            (snd (lng_generate_file (LNGGenerator ''ESSPRO'' ''Cust'') scenario_tree (lng_path out) fs)))
       = (True, [], [])"
    using lng_file_valid(1)[OF default_lng_fields_ok scenario_tree_ok, of "lng_path out" self fs]
    by (simp add: lng_path_def)
qed

text \<open>
  Claim C3 (Scenario B), as stated: the column block would be the text
  \<open>scenario_B_claimed\<close>, whose \<open>P:\<close> and \<open>A:Prompt\<close> lines carry two tabs and whose
  \<open>CE:\<close> line carries one. The block that the translation encoder emits for the column
  differs from it, at the depth of the column in the tree and at depth 0, and the claimed
  text occurs nowhere in the generated content.
\<close>

theorem scenario_B_counterexample:
  "join [] (trs_generate_column_block scenario_column scenario_translations 2) \<noteq> scenario_B_claimed
   \<and> join [] (trs_generate_column_block scenario_column scenario_translations 0) \<noteq> scenario_B_claimed
   \<and> \<not> str_in scenario_B_claimed (trs_generate_content scenario_tree scenario_translations)"
  by (simp add: scenario_B_claimed_def scenario_defs scenario_translations_def
      trs_generate_column_block_def translations_get_def trs_generate_content_def
      trs_content_lines_def trs_generate_lu_block_def trs_generate_view_block_def
      str_in_def sublist_Cons_right Let_def numeral_2_eq_2)

text \<open>
  Claim C3 (Scenario B), amended. The column sits at depth 2, below its logical unit and
  its view: its \<open>CS:\<close> and \<open>CE:\<close> lines carry two tabs, its \<open>P:\<close> line with the original
  label and its \<open>A:Prompt\<close> line with the translation carry three.
\<close>

theorem scenario_B:
  "trs_generate_column_block scenario_column scenario_translations 2 =
     [[TAB, TAB] @ ''CS:C_TEST_FIELD^LU'' @ CRLF,
      [TAB, TAB, TAB] @ ''P:Test Field^'' @ CRLF,
      [TAB, TAB, TAB] @ ''A:Prompt^Testf'' @ [CHR 0xE4] @ ''lt^'' @ CRLF,
      [TAB, TAB] @ ''CE:'' @ CRLF]
   \<and> trs_generate_content scenario_tree scenario_translations =
     ''CS:TestLU^LU'' @ CRLF @
     [TAB] @ ''CS:TEST_VIEW^LU'' @ CRLF @
     join [] (trs_generate_column_block scenario_column scenario_translations 2) @
     [TAB] @ ''CE:'' @ CRLF @
     ''CE:'' @ CRLF"
  by (simp add: scenario_defs scenario_translations_def
      trs_generate_column_block_def translations_get_def trs_generate_content_def
      trs_content_lines_def trs_generate_lu_block_def trs_generate_view_block_def
      Let_def numeral_2_eq_2)

text \<open>
  Claim C4, as stated: caret-free identifiers would be enough for every \<open>CS:\<close> line of an
  encoder to have 5 or 2 fields. The labels are written as they are, so a label that
  holds a line feed ends its line early: in \<open>injected_tree\<close> no identifier holds a caret,
  yet the content that the definition encoder writes has the line \<open>CS:y^\<close>, with 2
  fields, and the validator reports it for the written file at line 16.
\<close>

theorem field_count_counterexample:
  "identifiers_caret_free injected_tree
   \<and> ''CS:y^'' @ [LF] \<in> set (readlines (lng_generate_content injected_tree))
   \<and> startswith (strip (''CS:y^'' @ [LF])) ''CS:''
   \<and> length (split_on (CHR ''^'') (strip (''CS:y^'' @ [LF]))) = 2
   \<and> fst (validate_file \<lparr>errors = [], warnings = []\<rparr> (lng_path ''out.lng'')
         (snd (lng_generate_file (LNGGenerator ''ESSPRO'' ''Cust'') injected_tree
                (lng_path ''out.lng'') no_file)))
     = (False, [''Line 11: CS '' @ [CHR 0x27] @ ''TestLU'' @ [CHR 0x27] @ '' not closed with CE'',
                ''Line 15: A:Prompt should end with ^'',
                ''Line 16: Invalid CS format. Expected 5 parts, got 2''], [])"
  by code_simp

text \<open>
  Claim C4, amended (field-count contract). Take any content line whose trimmed text
  starts with \<open>CS:\<close>, at any place in the content. The structure check of the definition
  kind splits the trimmed line at the carets and, unless that gives exactly 5 parts, adds
  the error that names 5 and the count found, with the line's number; with 5 parts the
  line adds nothing. The error stays in the list that the check returns. The structure
  check of the translation kind does the same with 2. On the side of the encoders: when
  no logical unit name, view identifier or custom column identifier holds a caret, every
  entry of the list \<open>lines\<close> of the definition encoder whose trimmed text starts with
  \<open>CS:\<close> splits into 5 parts, and every such entry of the translation encoder into 2.
  When moreover no identifier and no written label holds a line break, the same holds of
  every line that \<open>readlines\<close> returns for the content of the definition kind; with
  translations free of line breaks, for the content of the translation kind; and with
  header fields free of line breaks, for every line of the whole text that
  \<open>generate_file\<close> writes.
\<close>

theorem field_count_contract:
  "(startswith (strip line) ''CS:'' \<longrightarrow>
      validate_lng_structure (before @ line # after) offset self =
        lng_structure_loop (length before + 1) after offset
          (if length (split_on (CHR ''^'') (strip line)) \<noteq> 5
           then add_error (''Line '' @ str_nat (length before + offset + 1)
                             @ '': Invalid CS format. Expected 5 parts, got ''
                             @ str_nat (length (split_on (CHR ''^'') (strip line))))
                  (validate_lng_structure before offset self)
           else validate_lng_structure before offset self)
      \<and> (length (split_on (CHR ''^'') (strip line)) \<noteq> 5 \<longrightarrow>
            ''Line '' @ str_nat (length before + offset + 1)
              @ '': Invalid CS format. Expected 5 parts, got ''
              @ str_nat (length (split_on (CHR ''^'') (strip line)))
            \<in> set (errors (validate_lng_structure (before @ line # after) offset self)))
      \<and> validate_trs_structure (before @ line # after) offset self =
        trs_structure_loop (length before + 1) after offset
          (if length (split_on (CHR ''^'') (strip line)) \<noteq> 2
           then add_error (''Line '' @ str_nat (length before + offset + 1)
                             @ '': Invalid CS format for .trs. Expected 2 parts, got ''
                             @ str_nat (length (split_on (CHR ''^'') (strip line))))
                  (validate_trs_structure before offset self)
           else validate_trs_structure before offset self)
      \<and> (length (split_on (CHR ''^'') (strip line)) \<noteq> 2 \<longrightarrow>
            ''Line '' @ str_nat (length before + offset + 1)
              @ '': Invalid CS format for .trs. Expected 2 parts, got ''
              @ str_nat (length (split_on (CHR ''^'') (strip line)))
            \<in> set (errors (validate_trs_structure (before @ line # after) offset self))))
   \<and> (identifiers_caret_free data \<longrightarrow>
        (\<forall>l \<in> set (lng_content_lines data).
           startswith (strip l) ''CS:'' \<longrightarrow> length (split_on (CHR ''^'') (strip l)) = 5)
        \<and> (\<forall>l \<in> set (trs_content_lines data tmap).
             startswith (strip l) ''CS:'' \<longrightarrow> length (split_on (CHR ''^'') (strip l)) = 2))
   \<and> (identifiers_caret_free data \<and> tree_linebreak_free data \<longrightarrow>
        (\<forall>r \<in> set (readlines (lng_generate_content data)).
           startswith (strip r) ''CS:'' \<longrightarrow> length (split_on (CHR ''^'') (strip r)) = 5)
        \<and> (translations_ok tmap \<longrightarrow>
             (\<forall>r \<in> set (readlines (trs_generate_content data tmap)).
                startswith (strip r) ''CS:'' \<longrightarrow> length (split_on (CHR ''^'') (strip r)) = 2))
        \<and> (lng_fields_ok g \<longrightarrow>
             (\<forall>r \<in> set (readlines (lng_generate_header g @ lng_generate_content data)).
                startswith (strip r) ''CS:'' \<longrightarrow> length (split_on (CHR ''^'') (strip r)) = 5))
        \<and> (translations_ok tmap \<and> trs_fields_ok t \<longrightarrow>
             (\<forall>r \<in> set (readlines (trs_generate_header t @ trs_generate_content data tmap)).
                startswith (strip r) ''CS:'' \<longrightarrow> length (split_on (CHR ''^'') (strip r)) = 2)))
   \<and> snd (lng_generate_file g data lng_file fs) (path_str lng_file)
       = Readable (lng_generate_header g @ lng_generate_content data)
   \<and> snd (trs_generate_file t data tmap trs_file fs) (path_str trs_file)
       = Readable (trs_generate_header t @ trs_generate_content data tmap)"
proof (intro conjI impI ballI)
  assume cs: "startswith (strip line) ''CS:''"
  show "validate_lng_structure (before @ line # after) offset self =
        lng_structure_loop (length before + 1) after offset
          (if length (split_on (CHR ''^'') (strip line)) \<noteq> 5
           then add_error (''Line '' @ str_nat (length before + offset + 1)
                             @ '': Invalid CS format. Expected 5 parts, got ''
                             @ str_nat (length (split_on (CHR ''^'') (strip line))))
                  (validate_lng_structure before offset self)
           else validate_lng_structure before offset self)"
    using cs by (rule lng_cs_line_checked)
  show "validate_trs_structure (before @ line # after) offset self =
        trs_structure_loop (length before + 1) after offset
          (if length (split_on (CHR ''^'') (strip line)) \<noteq> 2
           then add_error (''Line '' @ str_nat (length before + offset + 1)
                             @ '': Invalid CS format for .trs. Expected 2 parts, got ''
                             @ str_nat (length (split_on (CHR ''^'') (strip line))))
                  (validate_trs_structure before offset self)
           else validate_trs_structure before offset self)"
    using cs by (rule trs_cs_line_checked)
  {
    assume "length (split_on (CHR ''^'') (strip line)) \<noteq> 5"
    with cs show "''Line '' @ str_nat (length before + offset + 1)
              @ '': Invalid CS format. Expected 5 parts, got ''
              @ str_nat (length (split_on (CHR ''^'') (strip line)))
            \<in> set (errors (validate_lng_structure (before @ line # after) offset self))"
      by (rule lng_cs_line_error_recorded)
  }
  {
    assume "length (split_on (CHR ''^'') (strip line)) \<noteq> 2"
    with cs show "''Line '' @ str_nat (length before + offset + 1)
              @ '': Invalid CS format for .trs. Expected 2 parts, got ''
              @ str_nat (length (split_on (CHR ''^'') (strip line)))
            \<in> set (errors (validate_trs_structure (before @ line # after) offset self))"
      by (rule trs_cs_line_error_recorded)
  }
next
  fix l
  assume a: "identifiers_caret_free data" "l \<in> set (lng_content_lines data)"
    "startswith (strip l) ''CS:''"
  have "\<forall>item \<in> set (lng_items data). cs_fields 5 (snd item)"
    using a(1) by (rule lng_items_fields)
  from emitted_cs_fields[OF this _ a(3)] a(2)
  show "length (split_on (CHR ''^'') (strip l)) = 5"
    by (simp add: lng_content_lines_items)
next
  fix l
  assume a: "identifiers_caret_free data" "l \<in> set (trs_content_lines data tmap)"
    "startswith (strip l) ''CS:''"
  have "\<forall>item \<in> set (trs_items data tmap). cs_fields 2 (snd item)"
    using a(1) by (rule trs_items_fields)
  from emitted_cs_fields[OF this _ a(3)] a(2)
  show "length (split_on (CHR ''^'') (strip l)) = 2"
    by (simp add: trs_content_lines_items)
next
  fix r
  assume "identifiers_caret_free data \<and> tree_linebreak_free data"
    and "r \<in> set (readlines (lng_generate_content data))"
    and "startswith (strip r) ''CS:''"
  then show "length (split_on (CHR ''^'') (strip r)) = 5"
    using lng_content_read_cs_fields by blast
next
  fix r
  assume "identifiers_caret_free data \<and> tree_linebreak_free data"
    and "translations_ok tmap"
    and "r \<in> set (readlines (trs_generate_content data tmap))"
    and "startswith (strip r) ''CS:''"
  then show "length (split_on (CHR ''^'') (strip r)) = 2"
    using trs_content_read_cs_fields by blast
next
  fix r
  assume "identifiers_caret_free data \<and> tree_linebreak_free data"
    and "lng_fields_ok g"
    and "r \<in> set (readlines (lng_generate_header g @ lng_generate_content data))"
    and "startswith (strip r) ''CS:''"
  then show "length (split_on (CHR ''^'') (strip r)) = 5"
    using lng_file_read_cs_fields by blast
next
  fix r
  assume "identifiers_caret_free data \<and> tree_linebreak_free data"
    and "translations_ok tmap \<and> trs_fields_ok t"
    and "r \<in> set (readlines (trs_generate_header t @ trs_generate_content data tmap))"
    and "startswith (strip r) ''CS:''"
  then show "length (split_on (CHR ''^'') (strip r)) = 2"
    using trs_file_read_cs_fields by blast
next
  show "snd (lng_generate_file g data lng_file fs) (path_str lng_file)
       = Readable (lng_generate_header g @ lng_generate_content data)"
    by (simp add: lng_generate_file_def Let_def)
  show "snd (trs_generate_file t data tmap trs_file fs) (path_str trs_file)
       = Readable (trs_generate_header t @ trs_generate_content data tmap)"
    by (simp add: trs_generate_file_def Let_def)
qed

text \<open>
  Claim C4, at the line \<open>CS:A^LU\<close> as line 11 of a file, and at the first lines that the
  two encoders emit for the tree of the scenarios.
\<close>

text \<open>
  Claim C4, amended, at the line \<open>CS:A^LU^View\<close>, of 3 fields, as line 11 of a file,
  and at the first lines that the two encoders emit for the tree of the scenarios.
\<close>

theorem field_count_contract_witness:
  "startswith (strip (''CS:A^LU^View'' @ [LF])) ''CS:''
   \<and> length (split_on (CHR ''^'') (strip (''CS:A^LU^View'' @ [LF]))) = 3
   \<and> errors (validate_lng_structure [''CS:A^LU^View'' @ [LF]] 10 \<lparr>errors = [], warnings = []\<rparr>)
       = [''Line 11: Invalid CS format. Expected 5 parts, got 3'']
   \<and> errors (validate_trs_structure [''CS:A^LU^View'' @ [LF]] 10 \<lparr>errors = [], warnings = []\<rparr>)
       = [''Line 11: Invalid CS format for .trs. Expected 2 parts, got 3'']
   \<and> identifiers_caret_free scenario_tree
   \<and> ''CS:TestLU^LU^Logical Unit^N^N'' @ CRLF \<in> set (lng_content_lines scenario_tree)
   \<and> length (split_on (CHR ''^'') (strip (''CS:TestLU^LU^Logical Unit^N^N'' @ CRLF))) = 5
   \<and> ''CS:TestLU^LU'' @ CRLF \<in> set (trs_content_lines scenario_tree scenario_translations)
   \<and> length (split_on (CHR ''^'') (strip (''CS:TestLU^LU'' @ CRLF))) = 2
   \<and> tree_linebreak_free scenario_tree
   \<and> translations_ok scenario_translations
   \<and> lng_fields_ok (LNGGenerator ''ESSPRO'' ''Cust'')
   \<and> trs_fields_ok (TRSGenerator ''ESSPRO'' ''Cust'' ''sv-SE'')
   \<and> ''CS:TestLU^LU^Logical Unit^N^N'' @ [LF]
       \<in> set (readlines (lng_generate_content scenario_tree))
   \<and> ''CS:TestLU^LU^Logical Unit^N^N'' @ [LF]
       \<in> set (readlines (lng_generate_header (LNGGenerator ''ESSPRO'' ''Cust'')
                          @ lng_generate_content scenario_tree))
   \<and> length (split_on (CHR ''^'') (strip (''CS:TestLU^LU^Logical Unit^N^N'' @ [LF]))) = 5
   \<and> ''CS:TestLU^LU'' @ [LF]
       \<in> set (readlines (trs_generate_content scenario_tree scenario_translations))
   \<and> ''CS:TestLU^LU'' @ [LF]
       \<in> set (readlines (trs_generate_header (TRSGenerator ''ESSPRO'' ''Cust'' ''sv-SE'')
                          @ trs_generate_content scenario_tree scenario_translations))
   \<and> length (split_on (CHR ''^'') (strip (''CS:TestLU^LU'' @ [LF]))) = 2"
proof -
  define v0 :: validator where "v0 = \<lparr>errors = [], warnings = []\<rparr>"
  note t = field_count_contract[where line = "''CS:A^LU^View'' @ [LF]" and before = "[]"
      and after = "[]" and offset = 10 and self = v0 and data = scenario_tree
      and tmap = scenario_translations and g = "LNGGenerator ''ESSPRO'' ''Cust''"
      and t = "TRSGenerator ''ESSPRO'' ''Cust'' ''sv-SE''"]
  have s: "strip (''CS:A^LU^View'' @ [LF]) = ''CS:A^LU^View''"
    using strip_line_LF[of "''CS:A^LU^View''"] by (simp add: trim_ok_def is_space_def)
  have cs: "startswith (strip (''CS:A^LU^View'' @ [LF])) ''CS:''"
    by (simp only: s) (simp add: startswith_def)
  have n: "length (split_on (CHR ''^'') (strip (''CS:A^LU^View'' @ [LF]))) = 3"
    by (simp only: s) simp
  from t cs have "validate_lng_structure ([] @ (''CS:A^LU^View'' @ [LF]) # []) 10 v0 =
        lng_structure_loop (length ([] :: string list) + 1) [] 10
          (if length (split_on (CHR ''^'') (strip (''CS:A^LU^View'' @ [LF]))) \<noteq> 5
           then add_error (''Line '' @ str_nat (length ([] :: string list) + 10 + 1)
                             @ '': Invalid CS format. Expected 5 parts, got ''
                             @ str_nat (length (split_on (CHR ''^'') (strip (''CS:A^LU^View'' @ [LF])))))
                  (validate_lng_structure [] 10 v0)
           else validate_lng_structure [] 10 v0)"
    by blast
  then have a: "errors (validate_lng_structure [''CS:A^LU^View'' @ [LF]] 10 v0)
       = [''Line 11: Invalid CS format. Expected 5 parts, got 3'']"
    by (simp only: n) (simp add: validate_lng_structure_def add_error_def v0_def str_nat_11 str_nat_3)
  from t cs have "validate_trs_structure ([] @ (''CS:A^LU^View'' @ [LF]) # []) 10 v0 =
        trs_structure_loop (length ([] :: string list) + 1) [] 10
          (if length (split_on (CHR ''^'') (strip (''CS:A^LU^View'' @ [LF]))) \<noteq> 2
           then add_error (''Line '' @ str_nat (length ([] :: string list) + 10 + 1)
                             @ '': Invalid CS format for .trs. Expected 2 parts, got ''
                             @ str_nat (length (split_on (CHR ''^'') (strip (''CS:A^LU^View'' @ [LF])))))
                  (validate_trs_structure [] 10 v0)
           else validate_trs_structure [] 10 v0)"
    by blast
  then have b: "errors (validate_trs_structure [''CS:A^LU^View'' @ [LF]] 10 v0)
       = [''Line 11: Invalid CS format for .trs. Expected 2 parts, got 3'']"
    by (simp only: n) (simp add: validate_trs_structure_def add_error_def v0_def str_nat_11 str_nat_3)
  have n5: "length (split_on (CHR ''^'') (strip (''CS:A^LU^View'' @ [LF]))) \<noteq> 5"
    and n2: "length (split_on (CHR ''^'') (strip (''CS:A^LU^View'' @ [LF]))) \<noteq> 2"
    using n by simp_all
  from t cs n5 n2
  have e1: "''Line '' @ str_nat (length ([] :: string list) + 10 + 1)
              @ '': Invalid CS format. Expected 5 parts, got ''
              @ str_nat (length (split_on (CHR ''^'') (strip (''CS:A^LU^View'' @ [LF]))))
            \<in> set (errors (validate_lng_structure ([] @ (''CS:A^LU^View'' @ [LF]) # []) 10 v0))"
    and e2: "''Line '' @ str_nat (length ([] :: string list) + 10 + 1)
              @ '': Invalid CS format for .trs. Expected 2 parts, got ''
              @ str_nat (length (split_on (CHR ''^'') (strip (''CS:A^LU^View'' @ [LF]))))
            \<in> set (errors (validate_trs_structure ([] @ (''CS:A^LU^View'' @ [LF]) # []) 10 v0))"
    by blast+
  have m1: "''CS:TestLU^LU^Logical Unit^N^N'' @ CRLF \<in> set (lng_content_lines scenario_tree)"
    by (simp add: lng_content_lines_def lng_generate_lu_block_def scenario_defs)
  have m2: "''CS:TestLU^LU'' @ CRLF \<in> set (trs_content_lines scenario_tree scenario_translations)"
    by (simp add: trs_content_lines_def trs_generate_lu_block_def scenario_defs)
  have s1: "strip (''CS:TestLU^LU^Logical Unit^N^N'' @ CRLF) = ''CS:TestLU^LU^Logical Unit^N^N''"
    using strip_emit[of "''CS:TestLU^LU^Logical Unit^N^N''" 0]
    by (simp add: emit_def trim_ok_def is_space_def)
  have s2: "strip (''CS:TestLU^LU'' @ CRLF) = ''CS:TestLU^LU''"
    using strip_emit[of "''CS:TestLU^LU''" 0]
    by (simp add: emit_def trim_ok_def is_space_def)
  have c1: "startswith (strip (''CS:TestLU^LU^Logical Unit^N^N'' @ CRLF)) ''CS:''"
    by (simp only: s1) (simp add: startswith_def)
  have c2: "startswith (strip (''CS:TestLU^LU'' @ CRLF)) ''CS:''"
    by (simp only: s2) (simp add: startswith_def)
  from t scenario_identifiers_caret_free m1 c1
  have k1: "length (split_on (CHR ''^'') (strip (''CS:TestLU^LU^Logical Unit^N^N'' @ CRLF))) = 5"
    by blast
  from t scenario_identifiers_caret_free m2 c2
  have k2: "length (split_on (CHR ''^'') (strip (''CS:TestLU^LU'' @ CRLF))) = 2"
    by blast
  have s3: "strip (''CS:TestLU^LU^Logical Unit^N^N'' @ [LF]) = ''CS:TestLU^LU^Logical Unit^N^N''"
    using strip_line_LF[of "''CS:TestLU^LU^Logical Unit^N^N''"]
    by (simp add: trim_ok_def is_space_def)
  have s4: "strip (''CS:TestLU^LU'' @ [LF]) = ''CS:TestLU^LU''"
    using strip_line_LF[of "''CS:TestLU^LU''"] by (simp add: trim_ok_def is_space_def)
  have c3: "startswith (strip (''CS:TestLU^LU^Logical Unit^N^N'' @ [LF])) ''CS:''"
    by (simp only: s3) (simp add: startswith_def)
  have c4: "startswith (strip (''CS:TestLU^LU'' @ [LF])) ''CS:''"
    by (simp only: s4) (simp add: startswith_def)
  from t scenario_identifiers_caret_free scenario_tree_linebreak_free scenario_read_lines(1) c3
  have k3: "length (split_on (CHR ''^'') (strip (''CS:TestLU^LU^Logical Unit^N^N'' @ [LF]))) = 5"
    by blast
  from t scenario_identifiers_caret_free scenario_tree_linebreak_free scenario_translations_ok
    scenario_read_lines(2) c4
  have k4: "length (split_on (CHR ''^'') (strip (''CS:TestLU^LU'' @ [LF]))) = 2"
    by blast
  from t scenario_identifiers_caret_free scenario_tree_linebreak_free default_lng_fields_ok
    scenario_file_lines(1) c3
  have k5: "length (split_on (CHR ''^'') (strip (''CS:TestLU^LU^Logical Unit^N^N'' @ [LF]))) = 5"
    by blast
  from t scenario_identifiers_caret_free scenario_tree_linebreak_free scenario_translations_ok
    default_trs_fields_ok scenario_file_lines(2) c4
  have k6: "length (split_on (CHR ''^'') (strip (''CS:TestLU^LU'' @ [LF]))) = 2"
    by blast
  from cs n a b scenario_identifiers_caret_free m1 k1 m2 k2 scenario_tree_linebreak_free
    scenario_translations_ok default_lng_fields_ok default_trs_fields_ok
    scenario_read_lines scenario_file_lines k5 k6
  show ?thesis
    unfolding v0_def by blast
qed

text \<open>
  Claim C5, as stated: a file in which the label has no entry in the map would validate
  with the same verdict and errors as a file in which it has one. For the tree of the
  scenarios the empty map gives a valid file, and the entry that maps \<open>Test Field\<close> to a
  translation with a line feed gives a file with one error.
\<close>

theorem fallback_counterexample:
  "fst (validate_file \<lparr>errors = [], warnings = []\<rparr> (trs_path ''out.trs'')
         (snd (trs_generate_file (TRSGenerator ''ESSPRO'' ''Cust'' ''sv-SE'') scenario_tree
                Map.empty (trs_path ''out.trs'') no_file)))
     = (True, [], [])
   \<and> fst (validate_file \<lparr>errors = [], warnings = []\<rparr> (trs_path ''out.trs'')
         (snd (trs_generate_file (TRSGenerator ''ESSPRO'' ''Cust'' ''sv-SE'') scenario_tree
                (Map.empty(''Test Field'' \<mapsto> ''Test'' @ [LF] @ ''falt''))
                (trs_path ''out.trs'') no_file)))
     = (False, [''Line 17: A:Prompt should end with ^''], [])"
  by code_simp

text \<open>
  Claim C5 (fallback law), amended. For a column whose label has no entry in the map, the
  translation encoder emits the \<open>A:Prompt\<close> line with the label itself. And when a label
  has no entry, and neither the label nor a translation for it holds a line break, then
  \<open>validate_file\<close> returns the same for the file written from the map and for the file
  written from the map with that entry added: for every tree, generator, path and
  file system.
\<close>

theorem fallback_law:
  "(tmap (col_label c) = None \<longrightarrow>
      trs_generate_column_block c tmap d =
        [replicate d TAB @ ''CS:'' @ col_control c @ ''^LU'' @ CRLF,
         replicate d TAB @ [TAB] @ ''P:'' @ col_label c @ ''^'' @ CRLF,
         replicate d TAB @ [TAB] @ ''A:Prompt^'' @ col_label c @ ''^'' @ CRLF,
         replicate d TAB @ ''CE:'' @ CRLF])
   \<and> (tmap label = None \<and> no_linebreak label \<and> no_linebreak translated \<longrightarrow>
        validate_file self p (snd (trs_generate_file g data tmap p fs)) =
        validate_file self p (snd (trs_generate_file g data (tmap(label \<mapsto> translated)) p fs)))"
  by (auto simp: trs_generate_column_block_def translations_get_def Let_def
      intro: trs_fallback_validates)

text \<open>
  Claim C5, amended, at the column and the tree of the scenarios, the empty map and the
  translation of Scenario B.
\<close>

theorem fallback_law_witness:
  "no_linebreak ''Test Field''
   \<and> no_linebreak (''Testf'' @ [CHR 0xE4] @ ''lt'')
   \<and> trs_generate_column_block scenario_column Map.empty 2 =
        [[TAB, TAB] @ ''CS:C_TEST_FIELD^LU'' @ CRLF,
         [TAB, TAB, TAB] @ ''P:Test Field^'' @ CRLF,
         [TAB, TAB, TAB] @ ''A:Prompt^Test Field^'' @ CRLF,
         [TAB, TAB] @ ''CE:'' @ CRLF]
   \<and> validate_file \<lparr>errors = [], warnings = []\<rparr> (trs_path ''out.trs'')
        (snd (trs_generate_file (TRSGenerator ''ESSPRO'' ''Cust'' ''sv-SE'') scenario_tree
               Map.empty (trs_path ''out.trs'') no_file))
     = validate_file \<lparr>errors = [], warnings = []\<rparr> (trs_path ''out.trs'')
        (snd (trs_generate_file (TRSGenerator ''ESSPRO'' ''Cust'' ''sv-SE'') scenario_tree
               scenario_translations (trs_path ''out.trs'') no_file))"
proof -
  note t = fallback_law[where tmap = Map.empty and c = scenario_column and d = 2
      and label = "''Test Field''" and translated = "''Testf'' @ [CHR 0xE4] @ ''lt''"
      and self = "\<lparr>errors = [], warnings = []\<rparr>" and p = "trs_path ''out.trs''"
      and g = "TRSGenerator ''ESSPRO'' ''Cust'' ''sv-SE''" and data = scenario_tree
      and fs = no_file]
  have a: "no_linebreak ''Test Field''" and b: "no_linebreak (''Testf'' @ [CHR 0xE4] @ ''lt'')"
    by (simp_all add: no_linebreak_def)
  from t have "trs_generate_column_block scenario_column Map.empty 2 =
        [replicate 2 TAB @ ''CS:'' @ col_control scenario_column @ ''^LU'' @ CRLF,
         replicate 2 TAB @ [TAB] @ ''P:'' @ col_label scenario_column @ ''^'' @ CRLF,
         replicate 2 TAB @ [TAB] @ ''A:Prompt^'' @ col_label scenario_column @ ''^'' @ CRLF,
         replicate 2 TAB @ ''CE:'' @ CRLF]"
    by simp
  then have c: "trs_generate_column_block scenario_column Map.empty 2 =
        [[TAB, TAB] @ ''CS:C_TEST_FIELD^LU'' @ CRLF,
         [TAB, TAB, TAB] @ ''P:Test Field^'' @ CRLF,
         [TAB, TAB, TAB] @ ''A:Prompt^Test Field^'' @ CRLF,
         [TAB, TAB] @ ''CE:'' @ CRLF]"
    by (simp add: scenario_column_def numeral_2_eq_2)
  from t a b have d: "validate_file \<lparr>errors = [], warnings = []\<rparr> (trs_path ''out.trs'')
        (snd (trs_generate_file (TRSGenerator ''ESSPRO'' ''Cust'' ''sv-SE'') scenario_tree
               Map.empty (trs_path ''out.trs'') no_file))
     = validate_file \<lparr>errors = [], warnings = []\<rparr> (trs_path ''out.trs'')
        (snd (trs_generate_file (TRSGenerator ''ESSPRO'' ''Cust'' ''sv-SE'') scenario_tree
               (Map.empty(''Test Field'' \<mapsto> ''Testf'' @ [CHR 0xE4] @ ''lt''))
               (trs_path ''out.trs'') no_file))"
    by blast
  from a b c d show ?thesis
    unfolding scenario_translations_def by blast
qed

text \<open>
  Claim C6 (Scenario C). Over the three content lines \<open>CS:A^LU\<close>, \<open>CS:B^LU\<close>, \<open>CE:\<close>
  the nesting check adds exactly one error, which reports \<open>A\<close> at its opening line as not
  closed, and no warning: after two lines the stack holds \<open>A\<close> below \<open>B\<close>, and the
  \<open>CE:\<close> line pops \<open>B\<close>.
\<close>

theorem scenario_C:
  "errors (validate_cs_ce_pairing (readlines scenario_C_text) offset self) =
     errors self @ [''Line '' @ str_nat (offset + 1) @ '': CS '' @ [CHR 0x27] @ ''A'' @ [CHR 0x27]
                     @ '' not closed with CE'']
   \<and> warnings (validate_cs_ce_pairing (readlines scenario_C_text) offset self) = warnings self
   \<and> fst (pairing_loop 0 (take 2 (readlines scenario_C_text)) offset [] self) =
       [(''A'', offset + 1), (''B'', offset + 2)]
   \<and> fst (pairing_loop 0 (readlines scenario_C_text) offset [] self) = [(''A'', offset + 1)]"
proof -
  have s: "strip (''CS:A^LU'' @ [LF]) = ''CS:A^LU''" "strip (''CS:B^LU'' @ [LF]) = ''CS:B^LU''"
    "strip (''CE:'' @ [LF]) = ''CE:''"
    by (rule strip_line_LF, simp add: trim_ok_def is_space_def)+
  show ?thesis
    using s
    by (simp add: readlines_scenario_C validate_cs_ce_pairing_def pairing_loop.simps(2)
        startswith_def re_match_cs_def add_error_def Let_def)
qed

text \<open>
  Claim C7 (Scenario D), as stated: validating a text whose content is the single line
  \<open>CE:\<close> would give exactly one error, "CE without matching CS". With the header in front
  \<open>validate_file\<close> gives the one error "Could not find content section", and for the
  bare line it gives that error after "File too short, missing header".
\<close>

theorem scenario_D_counterexample:
  "fst (validate_file \<lparr>errors = [], warnings = []\<rparr> (lng_path ''d.lng'')
         (no_file(''d.lng'' := Readable scenario_D_file)))
     = (False, [''Could not find content section''], [])
   \<and> fst (validate_file \<lparr>errors = [], warnings = []\<rparr> (lng_path ''d.lng'')
         (no_file(''d.lng'' := Readable scenario_D_text)))
     = (False, [''File too short, missing header'', ''Could not find content section''], [])"
  by code_simp

text \<open>
  Claim C7 (Scenario D), amended. The nesting check itself, run over the single line
  \<open>CE:\<close>, adds exactly one error, "CE without matching CS" at that line, and no warning,
  and the indentation check adds no warning either. \<open>validate_file\<close> does not reach the
  nesting check on such a text: no line starts with \<open>CS:\<close>, so it stops with the one error
  "Could not find content section".
\<close>

theorem scenario_D:
  "errors (validate_cs_ce_pairing (readlines scenario_D_text) offset self) =
     errors self @ [''Line '' @ str_nat (offset + 1) @ '': CE without matching CS'']
   \<and> warnings (validate_cs_ce_pairing (readlines scenario_D_text) offset self) = warnings self
   \<and> warnings (validate_indentation (readlines scenario_D_text) offset self) = warnings self
   \<and> find_content_start (readlines scenario_D_text) = None
   \<and> fst (validate_file self (lng_path out) (fs(out := Readable scenario_D_file)))
       = (False, [''Could not find content section''], [])"
proof (intro conjI)
  show "errors (validate_cs_ce_pairing (readlines scenario_D_text) offset self) =
     errors self @ [''Line '' @ str_nat (offset + 1) @ '': CE without matching CS'']"
    and "warnings (validate_cs_ce_pairing (readlines scenario_D_text) offset self) = warnings self"
    using strip_CE
    by (simp_all add: readlines_CE validate_cs_ce_pairing_def pairing_loop.simps(2)
        startswith_def add_error_def Let_def)
  show "warnings (validate_indentation (readlines scenario_D_text) offset self) = warnings self"
    using strip_CE
    by (simp add: readlines_CE validate_indentation_def startswith_def Let_def)
  show "find_content_start (readlines scenario_D_text) = None"
    using strip_CE by (simp add: readlines_CE find_content_start_def startswith_def)
  have lines: "readlines scenario_D_file =
      map (\<lambda>h. h @ [LF]) (lng_header_lines (LNGGenerator ''ESSPRO'' ''Cust'')) @ [''CE:'' @ [LF]]"
    using readlines_lines[of "lng_header_lines (LNGGenerator ''ESSPRO'' ''Cust'') @ [''CE:'']"]
      lng_header_no_linebreak[OF default_lng_fields_ok]
    by (simp add: scenario_D_file_def scenario_D_text_def lng_header_concat no_linebreak_def)
  have start: "find_content_start (readlines scenario_D_file) = None"
    using strip_CE by (simp add: lines find_content_start_def lng_header_no_cs startswith_def)
  have reset: "self\<lparr>errors := [], warnings := []\<rparr> = \<lparr>errors = [], warnings = []\<rparr>"
    by (cases self) simp
  show "fst (validate_file self (lng_path out) (fs(out := Readable scenario_D_file)))
       = (False, [''Could not find content section''], [])"
    unfolding validate_file_def
    by (simp add: lng_path_def Let_def start reset)
       (simp add: lines lng_header_valid add_error_def)
qed

text \<open>
  Claim C8, as stated: the preamble would have exactly ten lines for each kind. The
  header of the translation kind has twelve. And a field is written as it is: a module
  name that holds a line feed gives a header of the definition kind that reads back as
  eleven lines.
\<close>

theorem header_preamble_counterexample:
  "length (trs_header_lines (TRSGenerator ''ESSPRO'' ''Cust'' ''sv-SE'')) \<noteq> 10
   \<and> length (readlines (trs_generate_header (TRSGenerator ''ESSPRO'' ''Cust'' ''sv-SE''))) = 12
   \<and> length (readlines (lng_generate_header (LNGGenerator (''A'' @ [LF] @ ''B'') ''Cust''))) = 11"
  by code_simp

text \<open>
  Claim C8, amended. The header is its list of entries, each followed by carriage return
  and line feed. The list of the definition kind has the ten entries rule, file type,
  version 10.00, rule, Module, Layer, Main Type, Sub Type, Content, rule; the list of the
  translation kind is the same with Language and Culture after Module, twelve entries.
  The types default to \<open>LU\<close> and \<open>Logical Unit\<close>. When no header field holds a line
  break, reading the header back gives these entries line by line, ten lines and twelve
  lines.
\<close>

theorem header_preamble:
  "lng_generate_header g =
     separator_rule @ CRLF @
     ''File Type: IFS Foundation Language File'' @ CRLF @
     ''Type version: 10.00'' @ CRLF @
     separator_rule @ CRLF @
     ''Module: '' @ lng_module g @ CRLF @
     ''Layer: '' @ lng_layer g @ CRLF @
     ''Main Type: '' @ lng_main_type g @ CRLF @
     ''Sub Type: '' @ lng_sub_type g @ CRLF @
     ''Content: '' @ CRLF @
     separator_rule @ CRLF
   \<and> trs_generate_header t =
     separator_rule @ CRLF @
     ''File Type: IFS Foundation Translation File'' @ CRLF @
     ''Type version: 10.00'' @ CRLF @
     separator_rule @ CRLF @
     ''Module: '' @ trs_module t @ CRLF @
     ''Language: '' @ trs_lang_code t @ CRLF @
     ''Culture: '' @ trs_culture t @ CRLF @
     ''Layer: '' @ trs_layer t @ CRLF @
     ''Main Type: '' @ trs_main_type t @ CRLF @
     ''Sub Type: '' @ trs_sub_type t @ CRLF @
     ''Content: '' @ CRLF @
     separator_rule @ CRLF
   \<and> length (lng_header_lines g) = 10
   \<and> length (trs_header_lines t) = 12
   \<and> lng_generate_header g = concat (map (\<lambda>h. h @ CRLF) (lng_header_lines g))
   \<and> trs_generate_header t = concat (map (\<lambda>h. h @ CRLF) (trs_header_lines t))
   \<and> (lng_fields_ok g \<longrightarrow>
        readlines (lng_generate_header g) = map (\<lambda>h. h @ [LF]) (lng_header_lines g)
        \<and> length (readlines (lng_generate_header g)) = 10)
   \<and> (trs_fields_ok t \<longrightarrow>
        readlines (trs_generate_header t) = map (\<lambda>h. h @ [LF]) (trs_header_lines t)
        \<and> length (readlines (trs_generate_header t)) = 12)
   \<and> lng_main_type (LNGGenerator m l) = ''LU''
   \<and> lng_sub_type (LNGGenerator m l) = ''Logical Unit''
   \<and> trs_main_type (TRSGenerator m l lang) = ''LU''
   \<and> trs_sub_type (TRSGenerator m l lang) = ''Logical Unit''"
proof -
  have a: "lng_fields_ok g \<longrightarrow>
        readlines (lng_generate_header g) = map (\<lambda>h. h @ [LF]) (lng_header_lines g)
        \<and> length (readlines (lng_generate_header g)) = 10"
  proof
    assume ok: "lng_fields_ok g"
    have "readlines (lng_generate_header g) = map (\<lambda>h. h @ [LF]) (lng_header_lines g)"
      unfolding lng_header_concat
      using ok by (intro readlines_lines lng_header_no_linebreak)
    then show "readlines (lng_generate_header g) = map (\<lambda>h. h @ [LF]) (lng_header_lines g)
        \<and> length (readlines (lng_generate_header g)) = 10"
      by (simp add: lng_header_lines_def)
  qed
  have b: "trs_fields_ok t \<longrightarrow>
        readlines (trs_generate_header t) = map (\<lambda>h. h @ [LF]) (trs_header_lines t)
        \<and> length (readlines (trs_generate_header t)) = 12"
  proof
    assume ok: "trs_fields_ok t"
    have "readlines (trs_generate_header t) = map (\<lambda>h. h @ [LF]) (trs_header_lines t)"
      unfolding trs_header_concat
      using ok by (intro readlines_lines trs_header_no_linebreak)
    then show "readlines (trs_generate_header t) = map (\<lambda>h. h @ [LF]) (trs_header_lines t)
        \<and> length (readlines (trs_generate_header t)) = 12"
      by (simp add: trs_header_lines_def)
  qed
  have c: "lng_generate_header g = concat (map (\<lambda>h. h @ CRLF) (lng_header_lines g))"
    "trs_generate_header t = concat (map (\<lambda>h. h @ CRLF) (trs_header_lines t))"
    by (rule lng_header_concat, rule trs_header_concat)
  have d: "length (lng_header_lines g) = 10" "length (trs_header_lines t) = 12"
    by (simp_all add: lng_header_lines_def trs_header_lines_def)
  have e: "lng_generate_header g =
     separator_rule @ CRLF @
     ''File Type: IFS Foundation Language File'' @ CRLF @
     ''Type version: 10.00'' @ CRLF @
     separator_rule @ CRLF @
     ''Module: '' @ lng_module g @ CRLF @
     ''Layer: '' @ lng_layer g @ CRLF @
     ''Main Type: '' @ lng_main_type g @ CRLF @
     ''Sub Type: '' @ lng_sub_type g @ CRLF @
     ''Content: '' @ CRLF @
     separator_rule @ CRLF"
    by (simp add: lng_header_concat lng_header_lines_def)
  have f: "trs_generate_header t =
     separator_rule @ CRLF @
     ''File Type: IFS Foundation Translation File'' @ CRLF @
     ''Type version: 10.00'' @ CRLF @
     separator_rule @ CRLF @
     ''Module: '' @ trs_module t @ CRLF @
     ''Language: '' @ trs_lang_code t @ CRLF @
     ''Culture: '' @ trs_culture t @ CRLF @
     ''Layer: '' @ trs_layer t @ CRLF @
     ''Main Type: '' @ trs_main_type t @ CRLF @
     ''Sub Type: '' @ trs_sub_type t @ CRLF @
     ''Content: '' @ CRLF @
     separator_rule @ CRLF"
    by (simp add: trs_header_concat trs_header_lines_def)
  have g: "lng_main_type (LNGGenerator m l) = ''LU''"
    "lng_sub_type (LNGGenerator m l) = ''Logical Unit''"
    "trs_main_type (TRSGenerator m l lang) = ''LU''"
    "trs_sub_type (TRSGenerator m l lang) = ''Logical Unit''"
    by (simp_all add: LNGGenerator_def LNGGenerator_init_def TRSGenerator_def
        TRSGenerator_init_def)
  from a b c d e f g show ?thesis by blast
qed

text \<open>Claim C8, amended, at the generators of the scenarios.\<close>

theorem header_preamble_witness:
  "lng_fields_ok (LNGGenerator ''ESSPRO'' ''Cust'')
   \<and> trs_fields_ok (TRSGenerator ''ESSPRO'' ''Cust'' ''sv-SE'')
   \<and> length (readlines (lng_generate_header (LNGGenerator ''ESSPRO'' ''Cust''))) = 10
   \<and> length (readlines (trs_generate_header (TRSGenerator ''ESSPRO'' ''Cust'' ''sv-SE''))) = 12"
  using header_preamble[of "LNGGenerator ''ESSPRO'' ''Cust''"
      "TRSGenerator ''ESSPRO'' ''Cust'' ''sv-SE''"]
    default_lng_fields_ok default_trs_fields_ok
  by blast

text \<open>
  Claim C9. A line whose trimmed text starts with \<open>CS:\<close> fails the pattern exactly when
  it is \<open>CS:\<close> alone or goes on with a caret. Such a line gets the error "Malformed CS
  line" and leaves the stack as it was. In \<open>malformed_example\<close> the malformed line 2 sits
  inside the block \<open>A\<close>: the \<open>CE:\<close> of line 3 pops \<open>A\<close>, and the \<open>CE:\<close> of line 4 finds
  the stack empty, so the one malformed line also gives "CE without matching CS" at
  line 4.
\<close>

theorem malformed_cs_not_pushed:
  "(startswith (strip line) ''CS:'' \<longrightarrow>
      (re_match_cs (strip line) = None
         \<longleftrightarrow> strip line = ''CS:'' \<or> startswith (strip line) ''CS:^''))
   \<and> (strip line = ''CS:'' \<or> startswith (strip line) ''CS:^'' \<longrightarrow>
        pairing_loop i (line # rest) offset stack self =
        pairing_loop (i + 1) rest offset stack
          (add_error (''Line '' @ str_nat (i + offset + 1) @ '': Malformed CS line: '' @ strip line)
             self))
   \<and> fst (pairing_loop 0 (take 3 malformed_example) 0 [] self) = []
   \<and> errors (validate_cs_ce_pairing malformed_example 0 self) =
       errors self @ [''Line 2: Malformed CS line: CS:^LU'', ''Line 4: CE without matching CS'']"
proof (intro conjI impI)
  assume "startswith (strip line) ''CS:''"
  then show "re_match_cs (strip line) = None
         \<longleftrightarrow> strip line = ''CS:'' \<or> startswith (strip line) ''CS:^''"
    by (rule re_match_cs_None_iff)
next
  assume a: "strip line = ''CS:'' \<or> startswith (strip line) ''CS:^''"
  then have cs: "startswith (strip line) ''CS:''"
    by (auto simp: startswith_def prefix_def)
  with a have "re_match_cs (strip line) = None" by (simp add: re_match_cs_None_iff)
  with cs show "pairing_loop i (line # rest) offset stack self =
        pairing_loop (i + 1) rest offset stack
          (add_error (''Line '' @ str_nat (i + offset + 1) @ '': Malformed CS line: '' @ strip line)
             self)"
    by (simp add: pairing_loop.simps(2) Let_def)
next
  have s: "strip (''CS:A^LU'' @ [LF]) = ''CS:A^LU''" "strip ([TAB] @ ''CS:^LU'' @ [LF]) = ''CS:^LU''"
    "strip ([TAB] @ ''CE:'' @ [LF]) = ''CE:''" "strip (''CE:'' @ [LF]) = ''CE:''"
    using strip_line_LF[of "''CS:A^LU''"] strip_line_tab_LF[of "''CS:^LU''"]
      strip_line_tab_LF[of "''CE:''"] strip_line_LF[of "''CE:''"]
    by (simp_all add: trim_ok_def is_space_def)
  show "fst (pairing_loop 0 (take 3 malformed_example) 0 [] self) = []"
    using s
    by (simp add: malformed_example_def pairing_loop.simps(2) startswith_def re_match_cs_def
        add_error_def Let_def)
  show "errors (validate_cs_ce_pairing malformed_example 0 self) =
       errors self @ [''Line 2: Malformed CS line: CS:^LU'', ''Line 4: CE without matching CS'']"
    using s str_nat_Suc_2 str_nat_Suc_4
    by (simp add: malformed_example_def validate_cs_ce_pairing_def pairing_loop.simps(2)
        startswith_def re_match_cs_def add_error_def Let_def)
qed

text \<open>Claim C9, at the malformed second line of the example.\<close>

theorem malformed_cs_not_pushed_witness:
  "strip ([TAB] @ ''CS:^LU'' @ [LF]) = ''CS:^LU''
   \<and> startswith (strip ([TAB] @ ''CS:^LU'' @ [LF])) ''CS:^''
   \<and> re_match_cs (strip ([TAB] @ ''CS:^LU'' @ [LF])) = None
   \<and> pairing_loop 1 (([TAB] @ ''CS:^LU'' @ [LF]) # []) 0 [(''A'', 1)] \<lparr>errors = [], warnings = []\<rparr> =
       ([(''A'', 1)], \<lparr>errors = [''Line 2: Malformed CS line: CS:^LU''], warnings = []\<rparr>)"
proof -
  have s: "strip ([TAB] @ ''CS:^LU'' @ [LF]) = ''CS:^LU''"
    using strip_line_tab_LF[of "''CS:^LU''"] by (simp add: trim_ok_def is_space_def)
  have p: "startswith (strip ([TAB] @ ''CS:^LU'' @ [LF])) ''CS:^''"
    and q: "startswith (strip ([TAB] @ ''CS:^LU'' @ [LF])) ''CS:''"
    by (simp_all only: s) (simp_all add: startswith_def)
  note m = malformed_cs_not_pushed[of "[TAB] @ ''CS:^LU'' @ [LF]" 1 "[]" 0 "[(''A'', 1)]"
      "\<lparr>errors = [], warnings = []\<rparr>"]
  from m q p have n: "re_match_cs (strip ([TAB] @ ''CS:^LU'' @ [LF])) = None" by blast
  from m p have "pairing_loop 1 (([TAB] @ ''CS:^LU'' @ [LF]) # []) 0 [(''A'', 1)] \<lparr>errors = [], warnings = []\<rparr> =
        pairing_loop (1 + 1) [] 0 [(''A'', 1)]
          (add_error (''Line '' @ str_nat (1 + 0 + 1) @ '': Malformed CS line: '' @ strip ([TAB] @ ''CS:^LU'' @ [LF]))
             \<lparr>errors = [], warnings = []\<rparr>)"
    by blast
  then have "pairing_loop 1 (([TAB] @ ''CS:^LU'' @ [LF]) # []) 0 [(''A'', 1)] \<lparr>errors = [], warnings = []\<rparr> =
       ([(''A'', 1)], \<lparr>errors = [''Line 2: Malformed CS line: CS:^LU''], warnings = []\<rparr>)"
    by (simp only: s) (simp add: add_error_def str_nat_Suc_2)
  with s p n show ?thesis by blast
qed

text \<open>
  Claim C10. \<open>validate_file\<close> empties both lists first, so the triple it returns does not
  depend on the validator it is called on; a second call on the validator left by the
  first returns the same; and for a file that can be read the triple is determined by the
  suffix of the path and the text.
\<close>

theorem validate_file_stateless:
  "fst (validate_file self file_path fs) = fst (validate_file self' file_path fs)
   \<and> validate_file (snd (validate_file self file_path fs)) file_path fs
       = validate_file self file_path fs
   \<and> (fs (path_str file_path) = Readable text \<and> fs' (path_str file_path') = Readable text
        \<and> path_suffix file_path = path_suffix file_path'
      \<longrightarrow> fst (validate_file self file_path fs) = fst (validate_file self' file_path' fs'))"
proof (intro conjI impI)
  show "fst (validate_file self file_path fs) = fst (validate_file self' file_path fs)"
    by (simp add: validate_file_reset[of self] validate_file_reset[of self'])
  show "validate_file (snd (validate_file self file_path fs)) file_path fs
       = validate_file self file_path fs"
    by (simp add: validate_file_reset[of self] validate_file_reset[of "snd _"])
  assume "fs (path_str file_path) = Readable text \<and> fs' (path_str file_path') = Readable text
        \<and> path_suffix file_path = path_suffix file_path'"
  then have a: "fs (path_str file_path) = Readable text"
    and b: "fs' (path_str file_path') = Readable text"
    and c: "path_suffix file_path' = path_suffix file_path"
    by simp_all
  have "validate_file self file_path fs =
      validate_file self \<lparr>path_str = [], path_suffix = path_suffix file_path\<rparr> (\<lambda>p. Readable text)"
    and "validate_file self' file_path' fs' =
      validate_file self' \<lparr>path_str = [], path_suffix = path_suffix file_path\<rparr> (\<lambda>p. Readable text)"
    using validate_file_readable[of "fs" "file_path" "text" "self", OF a]
      validate_file_readable[of "fs'" "file_path'" "text" "self'", OF b]
    by (simp_all only: c)
  then show "fst (validate_file self file_path fs) = fst (validate_file self' file_path' fs')"
    by (simp add: validate_file_reset[of self] validate_file_reset[of self'])
qed

text \<open>
  Claim C10, at two validators that hold stale messages and two paths of the same suffix
  that hold the same text.
\<close>

theorem validate_file_stateless_witness:
  "(no_file(''a.lng'' := Readable scenario_D_file)) (path_str (lng_path ''a.lng'')) = Readable scenario_D_file
   \<and> (no_file(''b.lng'' := Readable scenario_D_file)) (path_str (lng_path ''b.lng'')) = Readable scenario_D_file
   \<and> path_suffix (lng_path ''a.lng'') = path_suffix (lng_path ''b.lng'')
   \<and> fst (validate_file \<lparr>errors = [''stale''], warnings = []\<rparr> (lng_path ''a.lng'')
            (no_file(''a.lng'' := Readable scenario_D_file)))
     = fst (validate_file \<lparr>errors = [], warnings = [''stale'']\<rparr> (lng_path ''b.lng'')
            (no_file(''b.lng'' := Readable scenario_D_file)))"
proof -
  have a: "(no_file(''a.lng'' := Readable scenario_D_file)) (path_str (lng_path ''a.lng'')) = Readable scenario_D_file"
    and b: "(no_file(''b.lng'' := Readable scenario_D_file)) (path_str (lng_path ''b.lng'')) = Readable scenario_D_file"
    and c: "path_suffix (lng_path ''a.lng'') = path_suffix (lng_path ''b.lng'')"
    by (simp_all add: lng_path_def)
  from validate_file_stateless[of "\<lparr>errors = [''stale''], warnings = []\<rparr>" "lng_path ''a.lng''"
      "no_file(''a.lng'' := Readable scenario_D_file)" "\<lparr>errors = [], warnings = [''stale'']\<rparr>"
      scenario_D_file "no_file(''b.lng'' := Readable scenario_D_file)" "lng_path ''b.lng''"] a b c
  show ?thesis by blast
qed

end
